theory Spec2Isabelle
  imports Complex_Main "HOL-Library.Word"
begin

unbundle bit_operations_syntax

section \<open>Parson: a shallow embedding of parson.c\<close>

text \<open>
  Conventions of the embedding.
  \<^item> A C string is a \<open>string\<close> (a list of bytes); the end of the list reads as the
    terminating NUL (\<open>peek\<close>, \<open>char_at\<close>). A buffer with an explicit length is the list
    itself.
  \<^item> A pointer that may be \<open>NULL\<close> is an \<open>option\<close>.
  \<^item> \<open>size_t\<close> counts and indices are \<open>nat\<close>; \<open>unsigned long\<close> hashes are \<open>64 word\<close>
    (LP64), so the hash wraps as in C. The byte counts of the serializer, C \<open>int\<close>s
    that grow with the output, are \<open>32 word\<close>; the other \<open>int\<close>s (a boolean, a level of
    indentation) are \<open>int\<close>.
  \<^item> A \<open>double\<close> is a \<open>c_double\<close>: a finite value, \<open>-0.0\<close>, an infinity or a NaN. The
    arithmetic of the floating-point unit and the conversions of the C library
    (\<open>strtod\<close>, \<open>sprintf\<close>) are parameters of the functions that use them.
  \<^item> The allocator is an external collaborator: every allocation succeeds.
  \<^item> A value owns its children, so a value tree is a datatype; the parent link of a
    child is implicit in the tree.
\<close>

subsection \<open>C strings\<close>

definition peek :: "string \<Rightarrow> char" where
  "peek s = (case s of [] \<Rightarrow> CHR 0x00 | c # _ \<Rightarrow> c)"

definition char_at :: "string \<Rightarrow> nat \<Rightarrow> char" where
  "char_at s i = (if i < length s then s ! i else CHR 0x00)"

definition strlen :: "string \<Rightarrow> nat" where
  "strlen s = length (takeWhile (\<lambda>c. c \<noteq> CHR 0x00) s)"

text \<open>\<open>strncmp_eq a b n\<close> is \<open>strncmp(a, b, n) == 0\<close>.\<close>

fun strncmp_eq :: "string \<Rightarrow> string \<Rightarrow> nat \<Rightarrow> bool" where
  "strncmp_eq a b 0 = True"
| "strncmp_eq a b (Suc n) =
     (if peek a \<noteq> peek b then False
      else if peek a = CHR 0x00 then True
      else strncmp_eq (tl a) (tl b) n)"

definition parson_strndup :: "string \<Rightarrow> nat \<Rightarrow> string" where
  "parson_strndup s n = take n s"

definition parson_strdup :: "string \<Rightarrow> string" where
  "parson_strdup s = parson_strndup s (strlen s)"

subsection \<open>UTF-8 validation\<close>

definition IS_CONT :: "char \<Rightarrow> bool" where
  "IS_CONT b = ((of_char b :: nat) AND 0xC0 = 0x80)"

definition num_bytes_in_utf8_sequence :: "char \<Rightarrow> nat" where
  "num_bytes_in_utf8_sequence ch =
     (let c = (of_char ch :: nat) in
      if c = 0xC0 \<or> c = 0xC1 \<or> c > 0xF4 \<or> IS_CONT ch then 0
      else if c AND 0x80 = 0 then 1
      else if c AND 0xE0 = 0xC0 then 2
      else if c AND 0xF0 = 0xE0 then 3
      else if c AND 0xF8 = 0xF0 then 4
      else 0)"

text \<open>
  \<open>verify_utf8_sequence s\<close> returns the status and the sequence length \<open>*len\<close>; the code
  point \<open>cp\<close> is an \<open>unsigned int\<close>.
\<close>

definition verify_utf8_sequence_cp :: "string \<Rightarrow> nat \<Rightarrow> 32 word option" where
  "verify_utf8_sequence_cp s len =
     (let b = (\<lambda>i. (of_nat (of_char (char_at s i)) :: 32 word)) in
      if len = 1 then Some (b 0)
      else if len = 2 \<and> IS_CONT (char_at s 1)
        then Some (push_bit 6 (b 0 AND 0x1F) OR (b 1 AND 0x3F))
      else if len = 3 \<and> IS_CONT (char_at s 1) \<and> IS_CONT (char_at s 2)
        then Some (push_bit 6 (push_bit 6 (b 0 AND 0xF) OR (b 1 AND 0x3F)) OR (b 2 AND 0x3F))
      else if len = 4 \<and> IS_CONT (char_at s 1) \<and> IS_CONT (char_at s 2) \<and> IS_CONT (char_at s 3)
        then Some (push_bit 6 (push_bit 6 (push_bit 6 (b 0 AND 0x7) OR (b 1 AND 0x3F))
                                 OR (b 2 AND 0x3F)) OR (b 3 AND 0x3F))
      else None)"

datatype JSON_Status = JSONSuccess | JSONFailure

definition verify_utf8_sequence :: "string \<Rightarrow> JSON_Status \<times> nat" where
  "verify_utf8_sequence s =
     (let len = num_bytes_in_utf8_sequence (char_at s 0) in
      case verify_utf8_sequence_cp s len of
        None \<Rightarrow> (JSONFailure, len)
      | Some cp \<Rightarrow>
          if (cp < 0x80 \<and> len > 1) \<or> (cp < 0x800 \<and> len > 2) \<or> (cp < 0x10000 \<and> len > 3)
            then (JSONFailure, len)
          else if cp > 0x10FFFF then (JSONFailure, len)
          else if cp \<ge> 0xD800 \<and> cp \<le> 0xDFFF then (JSONFailure, len)
          else (JSONSuccess, len))"

text \<open>
  The loop of \<open>is_valid_utf8\<close>: \<open>pos\<close> is \<open>string - start\<close>. A successful
  \<open>verify_utf8_sequence\<close> returns a length of at least 1, so the loop advances.
\<close>

function is_valid_utf8_loop :: "string \<Rightarrow> nat \<Rightarrow> nat \<Rightarrow> bool" where
  "is_valid_utf8_loop s string_len pos =
     (if pos < string_len then
        (case verify_utf8_sequence (drop pos s) of
           (JSONFailure, _) \<Rightarrow> False
         | (JSONSuccess, len) \<Rightarrow>
             if len = 0 then False else is_valid_utf8_loop s string_len (pos + len))
      else True)"
  by pat_completeness auto
termination
  by (relation "measure (\<lambda>(s, string_len, pos). string_len - pos)") auto

declare is_valid_utf8_loop.simps [simp del]

definition is_valid_utf8 :: "string \<Rightarrow> nat \<Rightarrow> bool" where
  "is_valid_utf8 s string_len = is_valid_utf8_loop s string_len 0"

subsection \<open>The data model\<close>

text \<open>
  \<open>JSON_Value_Type\<close> is the enumeration of \<open>parson.h\<close>. An object's four dense arrays
  (\<open>names\<close>, \<open>values\<close>, \<open>cell_ixs\<close>, \<open>hashes\<close>) are always written together at one index,
  so they are one list of entries, of length \<open>count\<close>. A cell holds an item index or
  \<open>OBJECT_INVALID_IX\<close>: \<open>Some i\<close> or \<open>None\<close>. The cells are a list of length
  \<open>cell_capacity\<close>.
\<close>

datatype JSON_Value_Type =
  JSONError | JSONNull | JSONString | JSONNumber | JSONObject | JSONArray | JSONBoolean

datatype 'v json_entry =
  JSON_Entry (entry_name: string) (entry_value: 'v) (entry_cell_ix: nat) (entry_hash: "64 word")

datatype 'v json_object_t =
  JSON_Object (cells: "nat option list") (entries: "'v json_entry list") (item_capacity: nat)

text \<open>
  A C \<open>double\<close>: \<open>Finite x\<close> is the finite double of value \<open>x\<close> other than \<open>-0.0\<close>
  (\<open>Finite 0\<close> is \<open>0.0\<close>), \<open>MinusZero\<close> is \<open>-0.0\<close>.
\<close>

datatype c_double = Finite real | MinusZero | PlusInfinity | MinusInfinity | NaN

datatype json_value =
    JObject "json_value json_object_t"
  | JArray "json_value list"
  | JString string
  | JNumber c_double
  | JBoolean int
  | JNull

definition cell_capacity :: "'v json_object_t \<Rightarrow> nat" where
  "cell_capacity object = length (cells object)"

definition count :: "'v json_object_t \<Rightarrow> nat" where
  "count object = length (entries object)"

definition STARTING_CAPACITY :: nat where
  "STARTING_CAPACITY = 16"

definition MAX_NESTING :: nat where
  "MAX_NESTING = 2048"

text \<open>\<open>OBJECT_INVALID_IX\<close> as a \<open>size_t\<close> that a function returns.\<close>

definition OBJECT_INVALID_IX :: nat where [code del]:
  "OBJECT_INVALID_IX = 2 ^ 64 - 1"

subsection \<open>The hash table of an object\<close>

fun hash_string_loop :: "64 word \<Rightarrow> string \<Rightarrow> nat \<Rightarrow> 64 word" where
  "hash_string_loop h s 0 = h"
| "hash_string_loop h [] (Suc n) = h"
| "hash_string_loop h (c # s) (Suc n) =
     (if c = CHR 0x00 then h
      else hash_string_loop (push_bit 5 h + h + of_nat (of_char c)) s n)"

definition hash_string :: "string \<Rightarrow> nat \<Rightarrow> 64 word" where
  "hash_string s n = hash_string_loop 5381 s n"

text \<open>\<open>hash & (cell_capacity - 1)\<close>, in \<open>size_t\<close> arithmetic (a capacity of 0 wraps).\<close>

definition home_cell :: "64 word \<Rightarrow> nat \<Rightarrow> nat" where
  "home_cell h cap = unat (h AND (word_of_nat cap - 1))"

function json_object_get_cell_ix_loop ::
  "'v json_object_t \<Rightarrow> string \<Rightarrow> nat \<Rightarrow> 64 word \<Rightarrow> nat \<Rightarrow> nat \<Rightarrow> nat \<times> bool" where
  "json_object_get_cell_ix_loop object key key_len h cell_ix i =
     (if i < cell_capacity object then
        (let ix = (cell_ix + i) AND (cell_capacity object - 1) in
         case cells object ! ix of
           None \<Rightarrow> (ix, False)
         | Some cell \<Rightarrow>
             if h \<noteq> entry_hash (entries object ! cell)
             then json_object_get_cell_ix_loop object key key_len h cell_ix (i + 1)
             else if strlen (entry_name (entries object ! cell)) = key_len
                     \<and> strncmp_eq key (entry_name (entries object ! cell)) key_len
             then (ix, True)
             else json_object_get_cell_ix_loop object key key_len h cell_ix (i + 1))
      else (OBJECT_INVALID_IX, False))"
  by pat_completeness auto
termination
  by (relation "measure (\<lambda>(object, key, key_len, h, cell_ix, i). cell_capacity object - i)") auto

declare json_object_get_cell_ix_loop.simps [simp del]

text \<open>The result is the cell index and \<open>*out_found\<close>.\<close>

definition json_object_get_cell_ix ::
  "'v json_object_t \<Rightarrow> string \<Rightarrow> nat \<Rightarrow> 64 word \<Rightarrow> nat \<times> bool" where
  "json_object_get_cell_ix object key key_len h =
     json_object_get_cell_ix_loop object key key_len h (home_cell h (cell_capacity object)) 0"

lemma json_object_get_cell_ix_code [code]:
  "json_object_get_cell_ix object key key_len h =
     (if cell_capacity object = 0 then (OBJECT_INVALID_IX, False)
      else json_object_get_cell_ix_loop object key key_len h
             (home_cell h (cell_capacity object)) 0)"
  by (simp add: json_object_get_cell_ix_def json_object_get_cell_ix_loop.simps)

definition json_object_init :: "nat \<Rightarrow> 'v json_object_t" where
  "json_object_init capacity = JSON_Object (replicate capacity None) [] (capacity * 7 div 10)"

definition json_object_make :: "'v json_object_t" where
  "json_object_make = json_object_init 0"

text \<open>
  The five stores that end \<open>json_object_add\<close> and \<open>json_object_set_value\<close>:
  \<open>names[count] = name; cells[cell_ix] = count; values[count] = value;
  cell_ixs[count] = cell_ix; hashes[count] = hash; count++\<close>.
\<close>

definition json_object_store ::
  "'v json_object_t \<Rightarrow> string \<Rightarrow> 'v \<Rightarrow> nat \<Rightarrow> 64 word \<Rightarrow> 'v json_object_t" where
  "json_object_store object key v cell_ix h =
     JSON_Object ((cells object)[cell_ix := Some (count object)])
       (entries object @ [JSON_Entry key v cell_ix h]) (item_capacity object)"

text \<open>
  \<open>json_object_add\<close> and \<open>json_object_grow_and_rehash\<close> call each other. The loop of
  \<open>json_object_grow_and_rehash\<close> carries the old object, the new one and the index \<open>i\<close>;
  on a failure the old object is kept.
\<close>

function (domintros) json_object_add ::
    "'v json_object_t \<Rightarrow> string \<Rightarrow> 'v \<Rightarrow> JSON_Status \<times> 'v json_object_t"
  and json_object_grow_and_rehash_loop ::
    "'v json_object_t \<Rightarrow> 'v json_object_t \<Rightarrow> nat \<Rightarrow> JSON_Status \<times> 'v json_object_t"
where
  "json_object_add object key v =
     (let h = hash_string key (strlen key);
          (cell_ix, found) = json_object_get_cell_ix object key (strlen key) h
      in if found then (JSONFailure, object)
         else if count object \<ge> item_capacity object then
           (case json_object_grow_and_rehash_loop object
                   (json_object_init (max (cell_capacity object * 2) STARTING_CAPACITY)) 0 of
              (JSONFailure, _) \<Rightarrow> (JSONFailure, object)
            | (JSONSuccess, grown) \<Rightarrow>
                (JSONSuccess, json_object_store grown key v
                   (fst (json_object_get_cell_ix grown key (strlen key) h)) h))
         else (JSONSuccess, json_object_store object key v cell_ix h))"
| "json_object_grow_and_rehash_loop object new_object i =
     (if i < count object then
        (case json_object_add new_object (entry_name (entries object ! i))
                (entry_value (entries object ! i)) of
           (JSONFailure, _) \<Rightarrow> (JSONFailure, object)
         | (JSONSuccess, new_object') \<Rightarrow>
             json_object_grow_and_rehash_loop object new_object' (i + 1))
      else (JSONSuccess, new_object))"
  by pat_completeness auto

lemma count_json_object_store [simp]:
  "count (json_object_store object key v c h) = count object + 1"
  by (simp add: json_object_store_def count_def)

lemma count_json_object_init [simp]: "count (json_object_init n) = 0"
  by (simp add: json_object_init_def count_def)

lemma json_object_add_count_dom:
  "json_object_add_json_object_grow_and_rehash_loop_dom (Inl (object :: 'v json_object_t, key, v)) \<Longrightarrow>
     count (snd (json_object_add object key v)) \<le> count object + 1"
  "json_object_add_json_object_grow_and_rehash_loop_dom (Inr (object2 :: 'v json_object_t, new_object, i)) \<Longrightarrow>
     count (snd (json_object_grow_and_rehash_loop object2 new_object i))
       \<le> max (count object2) (count new_object + (count object2 - i))"
proof (induction object key v and object2 new_object i
    rule: json_object_add_json_object_grow_and_rehash_loop.pinduct)
  case (1 object key v)
  obtain c f where cf:
    "json_object_get_cell_ix object key (strlen key) (hash_string key (strlen key)) = (c, f)"
    by fastforce
  note eq = json_object_add.psimps[OF 1(1), unfolded Let_def cf prod.case]
  show ?case
  proof (cases "\<not> f \<and> item_capacity object \<le> count object")
    case False
    then show ?thesis by (auto simp add: eq)
  next
    case True
    obtain st grown where g: "json_object_grow_and_rehash_loop object
              (json_object_init (max (cell_capacity object * 2) STARTING_CAPACITY)) 0 = (st, grown)"
      by fastforce
    from 1(2)[OF refl refl cf[symmetric]] True
    have "count (snd (json_object_grow_and_rehash_loop object
              (json_object_init (max (cell_capacity object * 2) STARTING_CAPACITY)) 0)) \<le> count object"
      by simp
    then show ?thesis using True g
      by (cases st) (simp_all add: eq)
  qed
next
  case (2 object new_object i)
  show ?case
  proof (cases "i < count object")
    case False
    then show ?thesis using 2(1)
      by (simp add: json_object_grow_and_rehash_loop.psimps)
  next
    case True
    obtain x y where xy: "(x, y) = json_object_add new_object (entry_name (entries object ! i))
               (entry_value (entries object ! i))"
      by (metis surj_pair)
    have b: "count y \<le> count new_object + 1"
      using 2(2)[OF True] xy by (metis snd_conv)
    show ?thesis
    proof (cases x)
      case JSONFailure
      then show ?thesis using 2(1) True xy[symmetric]
        by (simp add: json_object_grow_and_rehash_loop.psimps)
    next
      case JSONSuccess
      from 2(3)[OF True xy JSONSuccess] b True
      show ?thesis using 2(1) xy[symmetric] JSONSuccess
        by (simp add: json_object_grow_and_rehash_loop.psimps)
    qed
  qed
qed

termination json_object_add
proof (relation "measures
    [\<lambda>x. case x of Inl (object, key, v) \<Rightarrow> count object
        | Inr (object, new_object, i) \<Rightarrow> count new_object + (count object - i),
     \<lambda>x. case x of Inl _ \<Rightarrow> 2 | Inr _ \<Rightarrow> 1,
     \<lambda>x. case x of Inl _ \<Rightarrow> 0 | Inr (object, new_object, i) \<Rightarrow> count object - i]", goal_cases)
  case 1
  then show ?case by simp
next
  case (2 object key v x xa xb y)
  then show ?case by simp
next
  case (3 object new_object i)
  then show ?case by auto
next
  case (4 object new_object i x y)
  have "count y \<le> count new_object + 1"
    using json_object_add_count_dom(1)[OF 4(4)] 4(2) by (metis snd_conv)
  then show ?case using 4(1) by auto
qed

declare json_object_add.simps [simp del]
declare json_object_grow_and_rehash_loop.simps [simp del]


text \<open>
  \<open>json_object_getn_value\<close>: \<open>item_ix = cells[cell_ix]; return values[item_ix]\<close>. A found
  cell is occupied; an item index outside the dense arrays (undefined behaviour in C,
  excluded by the table invariant) reads as \<open>NULL\<close>.
\<close>

definition json_object_getn_value ::
  "'v json_object_t option \<Rightarrow> string option \<Rightarrow> nat \<Rightarrow> 'v option" where
  "json_object_getn_value obj nm name_len =
     (case (obj, nm) of
        (Some object, Some key) \<Rightarrow>
          (let h = hash_string key name_len;
               (cell_ix, found) = json_object_get_cell_ix object key name_len h
           in if \<not> found then None
              else (case cells object ! cell_ix of
                      None \<Rightarrow> None
                    | Some item_ix \<Rightarrow>
                        if item_ix < count object
                        then Some (entry_value (entries object ! item_ix)) else None))
      | _ \<Rightarrow> None)"

definition json_object_get_value ::
  "'v json_object_t option \<Rightarrow> string option \<Rightarrow> 'v option" where
  "json_object_get_value obj nm =
     (case (obj, nm) of
        (Some object, Some key) \<Rightarrow> json_object_getn_value obj nm (strlen key)
      | _ \<Rightarrow> None)"

definition json_object_get_count :: "'v json_object_t option \<Rightarrow> nat" where
  "json_object_get_count obj = (case obj of Some object \<Rightarrow> count object | None \<Rightarrow> 0)"

definition json_object_get_name :: "'v json_object_t option \<Rightarrow> nat \<Rightarrow> string option" where
  "json_object_get_name obj index =
     (case obj of
        None \<Rightarrow> None
      | Some object \<Rightarrow>
          if index \<ge> json_object_get_count obj then None
          else Some (entry_name (entries object ! index)))"

definition json_object_get_value_at :: "'v json_object_t option \<Rightarrow> nat \<Rightarrow> 'v option" where
  "json_object_get_value_at obj index =
     (case obj of
        None \<Rightarrow> None
      | Some object \<Rightarrow>
          if index \<ge> json_object_get_count obj then None
          else Some (entry_value (entries object ! index)))"

subsection \<open>Removing a value of an object\<close>

definition entry_set_cell_ix :: "'v json_entry \<Rightarrow> nat \<Rightarrow> 'v json_entry" where
  "entry_set_cell_ix e c = JSON_Entry (entry_name e) (entry_value e) c (entry_hash e)"

text \<open>
  The backward shift of \<open>json_object_remove_internal\<close>: the loop over \<open>x\<close>, with the
  freed cell \<open>i\<close> and the scanned cell \<open>j\<close>. It returns the object and the last freed
  cell.
\<close>

function json_object_remove_loop ::
  "'v json_object_t \<Rightarrow> nat \<Rightarrow> nat \<Rightarrow> nat \<Rightarrow> 'v json_object_t \<times> nat" where
  "json_object_remove_loop object i j x =
     (if x < cell_capacity object - 1 then
        (let j = (j + 1) AND (cell_capacity object - 1) in
         case cells object ! j of
           None \<Rightarrow> (object, i)
         | Some c \<Rightarrow>
             (let k = home_cell (entry_hash (entries object ! c)) (cell_capacity object) in
              if (j > i \<and> (k \<le> i \<or> k > j)) \<or> (j < i \<and> (k \<le> i \<and> k > j)) then
                json_object_remove_loop
                  (JSON_Object ((cells object)[i := cells object ! j])
                     ((entries object)[c := entry_set_cell_ix (entries object ! c) i])
                     (item_capacity object))
                  j j (x + 1)
              else json_object_remove_loop object i j (x + 1)))
      else (object, i))"
  by pat_completeness auto
termination
  by (relation "measure (\<lambda>(object, i, j, x). cell_capacity object - 1 - x)")
     (auto simp add: cell_capacity_def)

declare json_object_remove_loop.simps [simp del]

definition json_object_remove_internal ::
  "'v json_object_t option \<Rightarrow> string \<Rightarrow> JSON_Status \<times> 'v json_object_t option" where
  "json_object_remove_internal obj nm =
     (case obj of
        None \<Rightarrow> (JSONFailure, None)
      | Some object \<Rightarrow>
          (let h = hash_string nm (strlen nm);
               (cell, found) = json_object_get_cell_ix object nm (strlen nm) h
           in if \<not> found then (JSONFailure, obj)
              else
                (case cells object ! cell of
                   None \<Rightarrow> (JSONFailure, obj)
                 | Some item_ix \<Rightarrow>
                     (let last_item_ix = count object - 1;
                          object =
                            (if item_ix < last_item_ix then
                               JSON_Object
                                 ((cells object)
                                    [entry_cell_ix (entries object ! last_item_ix) := Some item_ix])
                                 ((entries object)[item_ix := entries object ! last_item_ix])
                                 (item_capacity object)
                             else object);
                          object = JSON_Object (cells object) (butlast (entries object))
                                     (item_capacity object);
                          (object, i) = json_object_remove_loop object cell cell 0
                      in (JSONSuccess,
                          Some (JSON_Object ((cells object)[i := None]) (entries object)
                                  (item_capacity object)))))))"

definition json_object_remove ::
  "'v json_object_t option \<Rightarrow> string \<Rightarrow> JSON_Status \<times> 'v json_object_t option" where
  "json_object_remove obj nm = json_object_remove_internal obj nm"

subsection \<open>Arrays\<close>

text \<open>An array is the list of its \<open>count\<close> items; its capacity is the allocator's business.\<close>

definition json_array_get_count :: "'v list option \<Rightarrow> nat" where
  "json_array_get_count arr = (case arr of Some array \<Rightarrow> length array | None \<Rightarrow> 0)"

definition json_array_get_value :: "'v list option \<Rightarrow> nat \<Rightarrow> 'v option" where
  "json_array_get_value arr index =
     (case arr of
        None \<Rightarrow> None
      | Some array \<Rightarrow>
          if index \<ge> json_array_get_count arr then None else Some (array ! index))"

definition json_array_add :: "'v list \<Rightarrow> 'v \<Rightarrow> JSON_Status \<times> 'v list" where
  "json_array_add array v = (JSONSuccess, array @ [v])"

subsection \<open>Values\<close>

definition json_value_get_type :: "json_value option \<Rightarrow> JSON_Value_Type" where
  "json_value_get_type v =
     (case v of
        None \<Rightarrow> JSONError
      | Some (JObject _) \<Rightarrow> JSONObject
      | Some (JArray _) \<Rightarrow> JSONArray
      | Some (JString _) \<Rightarrow> JSONString
      | Some (JNumber _) \<Rightarrow> JSONNumber
      | Some (JBoolean _) \<Rightarrow> JSONBoolean
      | Some JNull \<Rightarrow> JSONNull)"

definition json_value_get_object :: "json_value option \<Rightarrow> json_value json_object_t option" where
  "json_value_get_object v = (case v of Some (JObject object) \<Rightarrow> Some object | _ \<Rightarrow> None)"

definition json_value_get_array :: "json_value option \<Rightarrow> json_value list option" where
  "json_value_get_array v = (case v of Some (JArray array) \<Rightarrow> Some array | _ \<Rightarrow> None)"

definition json_value_get_string_desc :: "json_value option \<Rightarrow> string option" where
  "json_value_get_string_desc v = (case v of Some (JString s) \<Rightarrow> Some s | _ \<Rightarrow> None)"

definition json_value_get_string :: "json_value option \<Rightarrow> string option" where
  "json_value_get_string v = json_value_get_string_desc v"

definition json_value_get_string_len :: "json_value option \<Rightarrow> nat" where
  "json_value_get_string_len v =
     (case json_value_get_string_desc v of Some s \<Rightarrow> length s | None \<Rightarrow> 0)"

definition json_value_get_number :: "json_value option \<Rightarrow> c_double" where
  "json_value_get_number v = (case v of Some (JNumber x) \<Rightarrow> x | _ \<Rightarrow> Finite 0)"

definition json_value_get_boolean :: "json_value option \<Rightarrow> int" where
  "json_value_get_boolean v = (case v of Some (JBoolean b) \<Rightarrow> b | _ \<Rightarrow> - 1)"

definition json_value_init_object :: "json_value option" where
  "json_value_init_object = Some (JObject json_object_make)"

definition json_value_init_array :: "json_value option" where
  "json_value_init_array = Some (JArray [])"

definition json_value_init_string_no_copy :: "string \<Rightarrow> nat \<Rightarrow> json_value option" where
  "json_value_init_string_no_copy s len = Some (JString (take len s))"

definition json_value_init_string_with_len :: "string option \<Rightarrow> nat \<Rightarrow> json_value option" where
  "json_value_init_string_with_len str len =
     (case str of
        None \<Rightarrow> None
      | Some s \<Rightarrow>
          if \<not> is_valid_utf8 s len then None
          else json_value_init_string_no_copy (parson_strndup s len) len)"

definition json_value_init_string :: "string option \<Rightarrow> json_value option" where
  "json_value_init_string str =
     (case str of None \<Rightarrow> None | Some s \<Rightarrow> json_value_init_string_with_len str (strlen s))"

text \<open>\<open>IS_NUMBER_INVALID(x)\<close> is \<open>isnan(x) || isinf(x)\<close>.\<close>

definition IS_NUMBER_INVALID :: "c_double \<Rightarrow> bool" where
  "IS_NUMBER_INVALID x = (x = NaN \<or> x = PlusInfinity \<or> x = MinusInfinity)"

definition json_value_init_number :: "c_double \<Rightarrow> json_value option" where
  "json_value_init_number number =
     (if IS_NUMBER_INVALID number then None else Some (JNumber number))"

definition json_value_init_boolean :: "int \<Rightarrow> json_value option" where
  "json_value_init_boolean boolean = Some (JBoolean (if boolean \<noteq> 0 then 1 else 0))"

definition json_value_init_null :: "json_value option" where
  "json_value_init_null = Some JNull"

subsection \<open>Structural equality\<close>

definition value_size :: "json_value option \<Rightarrow> nat" where
  "value_size v = (case v of None \<Rightarrow> 0 | Some x \<Rightarrow> Suc (size x))"

lemma size_entry_value:
  "e \<in> set (entries object) \<Longrightarrow> size (entry_value e) < Suc (size_json_object_t size object)"
proof -
  assume e: "e \<in> set (entries object)"
  have "size (entry_value e) < Suc (size_json_entry size e)"
    by (cases e) simp
  also have "\<dots> \<le> Suc (size_list (size_json_entry size) (entries object))"
    using e by (simp add: size_list_estimation')
  also have "\<dots> \<le> Suc (size_json_object_t size object)"
    by (cases object) simp
  finally show ?thesis by simp
qed

lemma value_size_array_get_value:
  assumes t: "json_value_get_type a = JSONArray"
  shows "value_size (json_array_get_value (json_value_get_array a) i) < value_size a"
proof (cases a)
  case None
  then show ?thesis using t by (simp add: json_value_get_type_def)
next
  case (Some x)
  from t obtain xs where x: "x = JArray xs"
    using Some by (cases x) (simp_all add: json_value_get_type_def)
  have "i < length xs \<Longrightarrow> size (xs ! i) < Suc (size_list size xs)"
    by (metis nth_mem size_list_estimation' le_imp_less_Suc order_refl)
  then show ?thesis
    using Some x
    by (simp add: json_array_get_value_def json_value_get_array_def value_size_def
        json_array_get_count_def)
qed

lemma value_size_object_get_value:
  assumes t: "json_value_get_type a = JSONObject"
  shows "value_size (json_object_get_value (json_value_get_object a) key) < value_size a"
proof (cases a)
  case None
  then show ?thesis using t by (simp add: json_value_get_type_def)
next
  case (Some x)
  from t obtain object where x: "x = JObject object"
    using Some by (cases x) (simp_all add: json_value_get_type_def)
  have "\<And>i. i < count object \<Longrightarrow>
      size (entry_value (entries object ! i)) < Suc (size_json_object_t size object)"
    by (rule size_entry_value) (simp add: count_def)
  then show ?thesis
    using Some x
    by (auto simp add: json_object_get_value_def json_object_getn_value_def
        json_value_get_object_def value_size_def Let_def
        split: option.splits prod.splits)
qed

text \<open>
  The number case is \<open>fabs(a - b) < 0.000001\<close> on doubles. The subtraction rounds, so
  it is a parameter: \<open>fsub a b\<close> is the double that the floating-point unit returns for
  \<open>a - b\<close>. \<open>fabs\<close> and \<open><\<close> are exact. The constant is the double nearest to
  \<open>0.000001\<close>, which is \<open>4722366482869645 / 2^72\<close>.
\<close>

type_synonym fsub_t = "c_double \<Rightarrow> c_double \<Rightarrow> c_double"

definition c_fabs :: "c_double \<Rightarrow> c_double" where
  "c_fabs x =
     (case x of
        Finite r \<Rightarrow> Finite \<bar>r\<bar>
      | MinusZero \<Rightarrow> Finite 0
      | PlusInfinity \<Rightarrow> PlusInfinity
      | MinusInfinity \<Rightarrow> PlusInfinity
      | NaN \<Rightarrow> NaN)"

definition c_less :: "c_double \<Rightarrow> c_double \<Rightarrow> bool" where
  "c_less x y =
     (case (x, y) of
        (NaN, _) \<Rightarrow> False
      | (_, NaN) \<Rightarrow> False
      | (PlusInfinity, _) \<Rightarrow> False
      | (_, MinusInfinity) \<Rightarrow> False
      | (MinusInfinity, _) \<Rightarrow> True
      | (_, PlusInfinity) \<Rightarrow> True
      | (Finite a, Finite b) \<Rightarrow> a < b
      | (Finite a, MinusZero) \<Rightarrow> a < 0
      | (MinusZero, Finite b) \<Rightarrow> 0 < b
      | (MinusZero, MinusZero) \<Rightarrow> False)"

definition EPSILON :: c_double where
  "EPSILON = Finite (4722366482869645 / 2 ^ 72)"

function json_value_equals ::
  "fsub_t \<Rightarrow> json_value option \<Rightarrow> json_value option \<Rightarrow> bool" where
  "json_value_equals fsub a b =
     (let a_type = json_value_get_type a; b_type = json_value_get_type b in
      if a_type \<noteq> b_type then False
      else case a_type of
        JSONArray \<Rightarrow>
          (let a_array = json_value_get_array a; b_array = json_value_get_array b;
               a_count = json_array_get_count a_array; b_count = json_array_get_count b_array
           in if a_count \<noteq> b_count then False
              else list_all
                (\<lambda>i. json_value_equals fsub (json_array_get_value (json_value_get_array a) i)
                                        (json_array_get_value b_array i))
                [0..<a_count])
      | JSONObject \<Rightarrow>
          (let a_object = json_value_get_object a; b_object = json_value_get_object b;
               a_count = json_object_get_count a_object;
               b_count = json_object_get_count b_object
           in if a_count \<noteq> b_count then False
              else list_all
                (\<lambda>i. let key = json_object_get_name a_object i in
                      json_value_equals fsub
                        (json_object_get_value (json_value_get_object a) key)
                                        (json_object_get_value b_object key))
                [0..<a_count])
      | JSONString \<Rightarrow>
          (case (json_value_get_string_desc a, json_value_get_string_desc b) of
             (Some a_string, Some b_string) \<Rightarrow>
               length a_string = length b_string \<and> a_string = b_string
           | _ \<Rightarrow> False)
      | JSONBoolean \<Rightarrow> json_value_get_boolean a = json_value_get_boolean b
      | JSONNumber \<Rightarrow>
          c_less (c_fabs (fsub (json_value_get_number a) (json_value_get_number b))) EPSILON
      | JSONError \<Rightarrow> True
      | JSONNull \<Rightarrow> True)"
  by pat_completeness auto
termination
proof (relation "measure (\<lambda>(fsub, a, b). value_size a)", goal_cases)
  case 1
  then show ?case by simp
next
  case (2 fsub a b x xa xb xc xd xe z xf)
  then have "json_value_get_type a = JSONObject" by metis
  then show ?case by (simp add: value_size_object_get_value)
next
  case (3 fsub a b x xa xb xc xd xe z)
  then have "json_value_get_type a = JSONArray" by metis
  then show ?case by (simp add: value_size_array_get_value)
qed

declare json_value_equals.simps [simp del]

subsection \<open>The parser\<close>

text \<open>\<open>isspace\<close> in the C locale: space, and the controls 0x09 to 0x0D.\<close>

definition isspace :: "char \<Rightarrow> bool" where
  "isspace c = (c = CHR 0x20 \<or> (0x09 \<le> (of_char c :: nat) \<and> (of_char c :: nat) \<le> 0x0D))"

definition SKIP_WHITESPACES :: "string \<Rightarrow> string" where
  "SKIP_WHITESPACES s = dropWhile isspace s"

text \<open>The loop of \<open>skip_quotes\<close>, after the opening quote; the result is the new cursor.\<close>

fun skip_quotes_loop :: "string \<Rightarrow> string option" where
  "skip_quotes_loop [] = None"
| "skip_quotes_loop (c # s) =
     (if c = CHR 0x22 then Some s
      else if c = CHR 0x00 then None
      else if c = CHR 0x5C then
        (case s of
           [] \<Rightarrow> None
         | d # s' \<Rightarrow> if d = CHR 0x00 then None else skip_quotes_loop s')
      else skip_quotes_loop s)"

definition skip_quotes :: "string \<Rightarrow> string option" where
  "skip_quotes s = (if peek s \<noteq> CHR 0x22 then None else skip_quotes_loop (tl s))"

definition hex_char_to_int :: "char \<Rightarrow> int" where
  "hex_char_to_int c =
     (let n = (of_char c :: int) in
      if of_char (CHR ''0'') \<le> n \<and> n \<le> of_char (CHR ''9'') then n - of_char (CHR ''0'')
      else if of_char (CHR ''a'') \<le> n \<and> n \<le> of_char (CHR ''f'') then n - of_char (CHR ''a'') + 10
      else if of_char (CHR ''A'') \<le> n \<and> n \<le> of_char (CHR ''F'') then n - of_char (CHR ''A'') + 10
      else - 1)"

definition parse_utf16_hex :: "string \<Rightarrow> 32 word option" where
  "parse_utf16_hex s =
     (if char_at s 0 = CHR 0x00 \<or> char_at s 1 = CHR 0x00 \<or> char_at s 2 = CHR 0x00
         \<or> char_at s 3 = CHR 0x00 then None
      else
        (let x1 = hex_char_to_int (char_at s 0); x2 = hex_char_to_int (char_at s 1);
             x3 = hex_char_to_int (char_at s 2); x4 = hex_char_to_int (char_at s 3)
         in if x1 = - 1 \<or> x2 = - 1 \<or> x3 = - 1 \<or> x4 = - 1 then None
            else Some (word_of_int (push_bit 12 x1 OR push_bit 8 x2 OR push_bit 4 x3 OR x4))))"

text \<open>The byte that a store of an \<open>unsigned int\<close> into a \<open>char\<close> leaves.\<close>

definition to_char :: "32 word \<Rightarrow> char" where
  "to_char w = char_of (unat (w AND 0xFF))"

text \<open>
  \<open>parse_utf16\<close> is entered with \<open>*unprocessed\<close> at the \<open>u\<close>. It returns how far it
  advanced \<open>*unprocessed\<close> (to the last hex digit) and the bytes it stored.
\<close>

definition parse_utf16 :: "string \<Rightarrow> (nat \<times> string) option" where
  "parse_utf16 unprocessed =
     (let p = drop 1 unprocessed in
      case parse_utf16_hex p of
        None \<Rightarrow> None
      | Some cp \<Rightarrow>
          if cp < 0x80 then Some (4, [to_char cp])
          else if cp < 0x800 then
            Some (4, [to_char ((drop_bit 6 cp AND 0x1F) OR 0xC0), to_char ((cp AND 0x3F) OR 0x80)])
          else if cp < 0xD800 \<or> cp > 0xDFFF then
            Some (4, [to_char ((drop_bit 12 cp AND 0x0F) OR 0xE0),
                      to_char ((drop_bit 6 cp AND 0x3F) OR 0x80),
                      to_char ((cp AND 0x3F) OR 0x80)])
          else if cp \<ge> 0xD800 \<and> cp \<le> 0xDBFF then
            (let lead = cp; q = drop 4 p in
             if char_at q 0 \<noteq> CHR 0x5C \<or> char_at q 1 \<noteq> CHR ''u'' then None
             else
               (case parse_utf16_hex (drop 2 q) of
                  None \<Rightarrow> None
                | Some trail \<Rightarrow>
                    if trail < 0xDC00 \<or> trail > 0xDFFF then None
                    else
                      (let cp = (push_bit 10 ((lead - 0xD800) AND 0x3FF)
                                   OR ((trail - 0xDC00) AND 0x3FF)) + 0x010000
                       in Some (10, [to_char ((drop_bit 18 cp AND 0x07) OR 0xF0),
                                     to_char ((drop_bit 12 cp AND 0x3F) OR 0x80),
                                     to_char ((drop_bit 6 cp AND 0x3F) OR 0x80),
                                     to_char ((cp AND 0x3F) OR 0x80)]))))
          else None)"

text \<open>
  The loop of \<open>process_string\<close>: \<open>input_ptr\<close> is the rest of the input at the cursor,
  \<open>pos\<close> is \<open>input_ptr - input\<close>, \<open>output\<close> the bytes stored so far.
\<close>

function process_string_loop :: "string \<Rightarrow> nat \<Rightarrow> nat \<Rightarrow> string \<Rightarrow> string option" where
  "process_string_loop input_ptr pos input_len output =
     (if peek input_ptr \<noteq> CHR 0x00 \<and> pos < input_len then
        (if peek input_ptr = CHR 0x5C then
           (let p = tl input_ptr; c = peek p in
            if c = CHR 0x22 then process_string_loop (tl p) (pos + 2) input_len (output @ [CHR 0x22])
            else if c = CHR 0x5C then process_string_loop (tl p) (pos + 2) input_len (output @ [CHR 0x5C])
            else if c = CHR ''/'' then process_string_loop (tl p) (pos + 2) input_len (output @ [CHR ''/''])
            else if c = CHR ''b'' then process_string_loop (tl p) (pos + 2) input_len (output @ [CHR 0x08])
            else if c = CHR ''f'' then process_string_loop (tl p) (pos + 2) input_len (output @ [CHR 0x0C])
            else if c = CHR ''n'' then process_string_loop (tl p) (pos + 2) input_len (output @ [CHR 0x0A])
            else if c = CHR ''r'' then process_string_loop (tl p) (pos + 2) input_len (output @ [CHR 0x0D])
            else if c = CHR ''t'' then process_string_loop (tl p) (pos + 2) input_len (output @ [CHR 0x09])
            else if c = CHR ''u'' then
              (case parse_utf16 p of
                 None \<Rightarrow> None
               | Some (adv, bytes) \<Rightarrow>
                   process_string_loop (drop (adv + 1) p) (pos + 1 + adv + 1) input_len
                     (output @ bytes))
            else None)
         else if (of_char (peek input_ptr) :: nat) < 0x20 then None
         else process_string_loop (tl input_ptr) (pos + 1) input_len (output @ [peek input_ptr]))
      else Some output)"
  by pat_completeness auto
termination
  by (relation "measure (\<lambda>(input_ptr, pos, input_len, output). length input_ptr)")
     (auto simp add: peek_def split: list.splits)

declare process_string_loop.simps [simp del]

definition process_string :: "string \<Rightarrow> nat \<Rightarrow> string option" where
  "process_string input input_len = process_string_loop input 0 input_len []"

text \<open>
  \<open>get_quoted_string\<close> returns the processed string, \<open>*output_string_len\<close> and the new
  cursor.
\<close>

definition get_quoted_string :: "string \<Rightarrow> (string \<times> nat \<times> string) option" where
  "get_quoted_string s =
     (case skip_quotes s of
        None \<Rightarrow> None
      | Some rest \<Rightarrow>
          (let input_string_len = length s - length rest - 2 in
           case process_string (tl s) input_string_len of
             None \<Rightarrow> None
           | Some output \<Rightarrow> Some (output, length output, rest)))"

text \<open>
  \<open>strtod\<close> belongs to the C library: it is a parameter, a function from the input at
  the cursor to the number, the count of characters consumed (\<open>end - *string\<close>) and the
  \<open>errno\<close> it leaves.
\<close>

datatype c_errno = NoError | ERANGE | OtherError

type_synonym strtod_t = "string \<Rightarrow> c_double \<times> nat \<times> c_errno"

definition is_decimal :: "string \<Rightarrow> nat \<Rightarrow> bool" where
  "is_decimal s len =
     (if len > 1 \<and> char_at s 0 = CHR ''0'' \<and> char_at s 1 \<noteq> CHR ''.'' then False
      else if len > 2 \<and> strncmp_eq s ''-0'' 2 \<and> char_at s 2 \<noteq> CHR ''.'' then False
      else \<not> list_ex (\<lambda>i. char_at s i = CHR ''x'' \<or> char_at s i = CHR ''X''
                              \<or> char_at s i = CHR 0x00) [0..<len])"

definition parse_string_value :: "string \<Rightarrow> (json_value \<times> string) option" where
  "parse_string_value s =
     (case get_quoted_string s of
        None \<Rightarrow> None
      | Some (new_string, new_string_len, rest) \<Rightarrow>
          (case json_value_init_string_no_copy new_string new_string_len of
             None \<Rightarrow> None
           | Some v \<Rightarrow> Some (v, rest)))"

definition parse_boolean_value :: "string \<Rightarrow> (json_value \<times> string) option" where
  "parse_boolean_value s =
     (if strncmp_eq ''true'' s 4 then
        (case json_value_init_boolean 1 of None \<Rightarrow> None | Some v \<Rightarrow> Some (v, drop 4 s))
      else if strncmp_eq ''false'' s 5 then
        (case json_value_init_boolean 0 of None \<Rightarrow> None | Some v \<Rightarrow> Some (v, drop 5 s))
      else None)"

definition parse_number_value :: "strtod_t \<Rightarrow> string \<Rightarrow> (json_value \<times> string) option" where
  "parse_number_value strtod s =
     (case strtod s of
        (number, consumed, errno) \<Rightarrow>
          if errno = ERANGE \<and> (number = MinusInfinity \<or> number = PlusInfinity) then None
          else if (errno \<noteq> NoError \<and> errno \<noteq> ERANGE) \<or> \<not> is_decimal s consumed then None
          else (case json_value_init_number number of
                  None \<Rightarrow> None
                | Some v \<Rightarrow> Some (v, drop consumed s)))"

definition parse_null_value :: "string \<Rightarrow> (json_value \<times> string) option" where
  "parse_null_value s =
     (if strncmp_eq ''null'' s 4 then
        (case json_value_init_null of None \<Rightarrow> None | Some v \<Rightarrow> Some (v, drop 4 s))
      else None)"

definition json_array_resize :: "'v list \<Rightarrow> nat \<Rightarrow> JSON_Status" where
  "json_array_resize array new_capacity = (if new_capacity = 0 then JSONFailure else JSONSuccess)"

definition is_number_start :: "char \<Rightarrow> bool" where
  "is_number_start c = (c = CHR ''-'' \<or> c \<in> set ''0123456789'')"

text \<open>
  The code after the loops of \<open>parse_object_value\<close> and \<open>parse_array_value\<close>.
\<close>

definition parse_object_end ::
  "string \<Rightarrow> json_value json_object_t \<Rightarrow> (json_value \<times> string) option" where
  "parse_object_end s output_object =
     (let s = SKIP_WHITESPACES s in
      if peek s \<noteq> CHR ''}'' then None else Some (JObject output_object, tl s))"

definition parse_array_end ::
  "string \<Rightarrow> json_value list \<Rightarrow> (json_value \<times> string) option" where
  "parse_array_end s output_array =
     (let s = SKIP_WHITESPACES s in
      if peek s \<noteq> CHR '']'' \<or> json_array_resize output_array (length output_array) \<noteq> JSONSuccess
      then None else Some (JArray output_array, tl s))"

function (domintros)
    parse_value :: "strtod_t \<Rightarrow> string \<Rightarrow> nat \<Rightarrow> (json_value \<times> string) option"
  and parse_object_value :: "strtod_t \<Rightarrow> string \<Rightarrow> nat \<Rightarrow> (json_value \<times> string) option"
  and parse_object_loop ::
    "strtod_t \<Rightarrow> string \<Rightarrow> nat \<Rightarrow> json_value json_object_t \<Rightarrow> (json_value \<times> string) option"
  and parse_array_value :: "strtod_t \<Rightarrow> string \<Rightarrow> nat \<Rightarrow> (json_value \<times> string) option"
  and parse_array_loop ::
    "strtod_t \<Rightarrow> string \<Rightarrow> nat \<Rightarrow> json_value list \<Rightarrow> (json_value \<times> string) option"
where
  "parse_value strtod string nesting =
     (if nesting > MAX_NESTING then None
      else
        (let s = SKIP_WHITESPACES string; c = peek s in
         if c = CHR ''{'' then parse_object_value strtod s (nesting + 1)
         else if c = CHR ''['' then parse_array_value strtod s (nesting + 1)
         else if c = CHR 0x22 then parse_string_value s
         else if c = CHR ''f'' \<or> c = CHR ''t'' then parse_boolean_value s
         else if is_number_start c then parse_number_value strtod s
         else if c = CHR ''n'' then parse_null_value s
         else None))"
| "parse_object_value strtod string nesting =
     (if peek string \<noteq> CHR ''{'' then None
      else
        (let s = SKIP_WHITESPACES (tl string) in
         if peek s = CHR ''}'' then Some (JObject json_object_make, tl s)
         else parse_object_loop strtod s nesting json_object_make))"
| "parse_object_loop strtod string nesting output_object =
     (if peek string \<noteq> CHR 0x00 then
        (case get_quoted_string string of
           None \<Rightarrow> None
         | Some (new_key, key_len, s1) \<Rightarrow>
             if key_len \<noteq> strlen new_key then None
             else
               (let s2 = SKIP_WHITESPACES s1 in
                if peek s2 \<noteq> CHR '':'' then None
                else
                  (case parse_value strtod (tl s2) nesting of
                     None \<Rightarrow> None
                   | Some (new_value, s3) \<Rightarrow>
                       (case json_object_add output_object new_key new_value of
                          (JSONFailure, _) \<Rightarrow> None
                        | (JSONSuccess, output_object') \<Rightarrow>
                            (let s4 = SKIP_WHITESPACES s3 in
                             if peek s4 \<noteq> CHR '','' then parse_object_end s4 output_object'
                             else
                               (let s5 = SKIP_WHITESPACES (tl s4) in
                                if peek s5 = CHR ''}'' then parse_object_end s5 output_object'
                                else parse_object_loop strtod s5 nesting output_object'))))))
      else parse_object_end string output_object)"
| "parse_array_value strtod string nesting =
     (if peek string \<noteq> CHR ''['' then None
      else
        (let s = SKIP_WHITESPACES (tl string) in
         if peek s = CHR '']'' then Some (JArray [], tl s)
         else parse_array_loop strtod s nesting []))"
| "parse_array_loop strtod string nesting output_array =
     (if peek string \<noteq> CHR 0x00 then
        (case parse_value strtod string nesting of
           None \<Rightarrow> None
         | Some (new_array_value, s1) \<Rightarrow>
             (case json_array_add output_array new_array_value of
                (JSONFailure, _) \<Rightarrow> None
              | (JSONSuccess, output_array') \<Rightarrow>
                  (let s2 = SKIP_WHITESPACES s1 in
                   if peek s2 \<noteq> CHR '','' then parse_array_end s2 output_array'
                   else
                     (let s3 = SKIP_WHITESPACES (tl s2) in
                      if peek s3 = CHR '']'' then parse_array_end s3 output_array'
                      else parse_array_loop strtod s3 nesting output_array'))))
      else parse_array_end string output_array)"
  by pat_completeness auto


lemma length_SKIP_WHITESPACES: "length (SKIP_WHITESPACES s) \<le> length s"
  by (simp add: SKIP_WHITESPACES_def length_dropWhile_le)

lemma length_tl_peek: "peek s \<noteq> CHR 0x00 \<Longrightarrow> length (tl s) < length s"
  by (cases s) (simp_all add: peek_def)

lemma skip_quotes_loop_length: "skip_quotes_loop s = Some r \<Longrightarrow> length r < length s"
proof (induction s arbitrary: r rule: skip_quotes_loop.induct)
  case 1
  then show ?case by simp
next
  case (2 c s)
  then show ?case
    by (fastforce split: if_splits list.splits)
qed

lemma get_quoted_string_length:
  "get_quoted_string s = Some (k, n, r) \<Longrightarrow> length r < length s"
  by (auto simp add: get_quoted_string_def skip_quotes_def Let_def
      split: option.splits if_splits dest!: skip_quotes_loop_length)

lemma parse_string_value_length:
  "parse_string_value s = Some (v, r) \<Longrightarrow> length r \<le> length s"
  by (auto simp add: parse_string_value_def split: option.splits
      dest!: get_quoted_string_length)

lemma parse_boolean_value_length:
  "parse_boolean_value s = Some (v, r) \<Longrightarrow> length r \<le> length s"
  by (auto simp add: parse_boolean_value_def split: option.splits if_splits)

lemma parse_number_value_length:
  "parse_number_value strtod s = Some (v, r) \<Longrightarrow> length r \<le> length s"
  by (auto simp add: parse_number_value_def split: option.splits if_splits prod.splits)

lemma parse_null_value_length:
  "parse_null_value s = Some (v, r) \<Longrightarrow> length r \<le> length s"
  by (auto simp add: parse_null_value_def split: option.splits if_splits)

lemma parse_object_end_length:
  "parse_object_end s ob = Some (v, r) \<Longrightarrow> length r \<le> length s"
  using length_SKIP_WHITESPACES[of s]
  by (auto simp add: parse_object_end_def Let_def split: if_splits)

lemma parse_array_end_length:
  "parse_array_end s ar = Some (v, r) \<Longrightarrow> length r \<le> length s"
  using length_SKIP_WHITESPACES[of s]
  by (auto simp add: parse_array_end_def Let_def split: if_splits)


lemma parse_length_dom:
  "parse_value_parse_object_value_parse_object_loop_parse_array_value_parse_array_loop_dom
     (Inl (Inl (sd1, s1, n1))) \<Longrightarrow>
   parse_value sd1 s1 n1 = Some (v1, r1) \<Longrightarrow> length r1 \<le> length s1"
  "parse_value_parse_object_value_parse_object_loop_parse_array_value_parse_array_loop_dom
     (Inl (Inr (sd2, s2, n2))) \<Longrightarrow>
   parse_object_value sd2 s2 n2 = Some (v2, r2) \<Longrightarrow> length r2 \<le> length s2"
  "parse_value_parse_object_value_parse_object_loop_parse_array_value_parse_array_loop_dom
     (Inr (Inl (sd3, s3, n3, ob3))) \<Longrightarrow>
   parse_object_loop sd3 s3 n3 ob3 = Some (v3, r3) \<Longrightarrow> length r3 \<le> length s3"
  "parse_value_parse_object_value_parse_object_loop_parse_array_value_parse_array_loop_dom
     (Inr (Inr (Inl (sd4, s4, n4)))) \<Longrightarrow>
   parse_array_value sd4 s4 n4 = Some (v4, r4) \<Longrightarrow> length r4 \<le> length s4"
  "parse_value_parse_object_value_parse_object_loop_parse_array_value_parse_array_loop_dom
     (Inr (Inr (Inr (sd5, s5, n5, ar5)))) \<Longrightarrow>
   parse_array_loop sd5 s5 n5 ar5 = Some (v5, r5) \<Longrightarrow> length r5 \<le> length s5"
proof (induction sd1 s1 n1 and sd2 s2 n2 and sd3 s3 n3 ob3 and sd4 s4 n4 and sd5 s5 n5 ar5
    arbitrary: v1 r1 and v2 r2 and v3 r3 and v4 r4 and v5 r5
    rule: parse_value_parse_object_value_parse_object_loop_parse_array_value_parse_array_loop.pinduct)
  case (1 strtod string nesting)
  note ws = length_SKIP_WHITESPACES[of string]
  from 1(4) 1(1) show ?case
    using ws 1(2)[OF _ refl refl] 1(3)[OF _ refl refl]
    by (auto simp add: parse_value.psimps Let_def split: if_splits
        dest!: parse_string_value_length parse_boolean_value_length
          parse_number_value_length parse_null_value_length)
next
  case (2 strtod string nesting)
  note ws = length_SKIP_WHITESPACES[of "tl string"]
  from 2(3) 2(1) show ?case
    using ws 2(2)[OF _ refl]
    by (fastforce simp add: parse_object_value.psimps Let_def split: if_splits)
next
  case (3 strtod string nesting output_object)
  note res = 3(4)[unfolded parse_object_loop.psimps[OF 3(1)]]
  show ?case
  proof (cases "peek string = CHR 0x00")
    case True
    then show ?thesis using res by (auto dest: parse_object_end_length)
  next
    case False
    from res False obtain new_key key_len s1 where
      q: "get_quoted_string string = Some (new_key, key_len, s1)"
      by (auto split: option.splits)
    have l1: "length s1 < length string"
      using q by (rule get_quoted_string_length)
    define s2 where "s2 = SKIP_WHITESPACES s1"
    have l2: "length s2 \<le> length s1"
      unfolding s2_def by (rule length_SKIP_WHITESPACES)
    from res False q have kl: "key_len = strlen new_key" and colon: "peek s2 = CHR '':''"
      by (auto simp add: Let_def s2_def split: if_splits)
    from res False q kl colon obtain new_value s3 where
      pv: "parse_value strtod (tl s2) nesting = Some (new_value, s3)"
      by (auto simp add: Let_def s2_def split: option.splits)
    have l3: "length s3 \<le> length (tl s2)"
      using 3(2)[OF False q refl refl _ s2_def _ pv] kl colon by simp
    from res False q kl colon pv obtain output_object' where
      add: "json_object_add output_object new_key new_value = (JSONSuccess, output_object')"
      by (auto simp add: Let_def s2_def split: prod.splits JSON_Status.splits)
    define s4 where "s4 = SKIP_WHITESPACES s3"
    have l4: "length s4 \<le> length s3"
      unfolding s4_def by (rule length_SKIP_WHITESPACES)
    define s5 where "s5 = SKIP_WHITESPACES (tl s4)"
    have l5: "length s5 \<le> length s4"
      unfolding s5_def using length_SKIP_WHITESPACES[of "tl s4"] by simp
    from res False q kl colon pv add
    have cases3: "(peek s4 \<noteq> CHR '','' \<and> parse_object_end s4 output_object' = Some (v3, r3))
        \<or> (peek s4 = CHR '','' \<and> peek s5 = CHR ''}''
             \<and> parse_object_end s5 output_object' = Some (v3, r3))
        \<or> (peek s4 = CHR '','' \<and> peek s5 \<noteq> CHR ''}''
             \<and> parse_object_loop strtod s5 nesting output_object' = Some (v3, r3))"
      by (auto simp add: Let_def s2_def[symmetric] s4_def[symmetric] s5_def[symmetric]
          split: if_splits)
    have "length r3 \<le> length s4"
    proof -
      from cases3 consider
        (a) "parse_object_end s4 output_object' = Some (v3, r3)"
        | (b) "parse_object_end s5 output_object' = Some (v3, r3)"
        | (c) "peek s4 = CHR '',''" "peek s5 \<noteq> CHR ''}''"
          "parse_object_loop strtod s5 nesting output_object' = Some (v3, r3)"
        by blast
      then show ?thesis
      proof cases
        case a
        then show ?thesis by (rule parse_object_end_length)
      next
        case b
        then show ?thesis using l5 by (auto dest: parse_object_end_length)
      next
        case c
        have "length r3 \<le> length s5"
          using 3(3)[OF False q refl refl _ s2_def _ pv refl add[symmetric] refl s4_def _ s5_def
              c(2) c(3)] kl colon c(1)
          by simp
        then show ?thesis using l5 by simp
      qed
    qed
    then show ?thesis using l1 l2 l3 l4 by simp
  qed
next
  case (4 strtod string nesting)
  note ws = length_SKIP_WHITESPACES[of "tl string"]
  from 4(3) 4(1) show ?case
    using ws 4(2)[OF _ refl]
    by (fastforce simp add: parse_array_value.psimps Let_def split: if_splits)
next
  case (5 strtod string nesting output_array)
  note res = 5(4)[unfolded parse_array_loop.psimps[OF 5(1)]]
  show ?case
  proof (cases "peek string = CHR 0x00")
    case True
    then show ?thesis using res by (auto dest: parse_array_end_length)
  next
    case False
    from res False obtain new_array_value s1 where
      pv: "parse_value strtod string nesting = Some (new_array_value, s1)"
      by (auto split: option.splits)
    have l1: "length s1 \<le> length string"
      using 5(2)[OF False pv] .
    obtain output_array' where
      add: "json_array_add output_array new_array_value = (JSONSuccess, output_array')"
      by (simp add: json_array_add_def)
    define s2 where "s2 = SKIP_WHITESPACES s1"
    have l2: "length s2 \<le> length s1"
      unfolding s2_def by (rule length_SKIP_WHITESPACES)
    define s3 where "s3 = SKIP_WHITESPACES (tl s2)"
    have l3: "length s3 \<le> length s2"
      unfolding s3_def using length_SKIP_WHITESPACES[of "tl s2"] by simp
    from res False pv add
    have cases5: "(peek s2 \<noteq> CHR '','' \<and> parse_array_end s2 output_array' = Some (v5, r5))
        \<or> (peek s2 = CHR '','' \<and> peek s3 = CHR '']''
             \<and> parse_array_end s3 output_array' = Some (v5, r5))
        \<or> (peek s2 = CHR '','' \<and> peek s3 \<noteq> CHR '']''
             \<and> parse_array_loop strtod s3 nesting output_array' = Some (v5, r5))"
      by (auto simp add: Let_def s2_def[symmetric] s3_def[symmetric] split: if_splits)
    have "length r5 \<le> length s2"
    proof -
      from cases5 consider
        (a) "parse_array_end s2 output_array' = Some (v5, r5)"
        | (b) "parse_array_end s3 output_array' = Some (v5, r5)"
        | (c) "peek s2 = CHR '',''" "peek s3 \<noteq> CHR '']''"
          "parse_array_loop strtod s3 nesting output_array' = Some (v5, r5)"
        by blast
      then show ?thesis
      proof cases
        case a
        then show ?thesis by (rule parse_array_end_length)
      next
        case b
        then show ?thesis using l3 by (auto dest: parse_array_end_length)
      next
        case c
        have "length r5 \<le> length s3"
          using 5(3)[OF False pv refl add[symmetric] refl s2_def _ s3_def c(2) c(3)] c(1)
          by simp
        then show ?thesis using l3 by simp
      qed
    qed
    then show ?thesis using l1 l2 by simp
  qed
qed

termination parse_value
proof (relation "measures
    [\<lambda>x. case x of
        Inl (Inl (strtod, s, n)) \<Rightarrow> length s
      | Inl (Inr (strtod, s, n)) \<Rightarrow> length s
      | Inr (Inl (strtod, s, n, ob)) \<Rightarrow> length s
      | Inr (Inr (Inl (strtod, s, n))) \<Rightarrow> length s
      | Inr (Inr (Inr (strtod, s, n, ar))) \<Rightarrow> length s,
     \<lambda>x. case x of
        Inl (Inl _) \<Rightarrow> 2
      | Inl (Inr _) \<Rightarrow> 1
      | Inr (Inl _) \<Rightarrow> 3
      | Inr (Inr (Inl _)) \<Rightarrow> 1
      | Inr (Inr (Inr _)) \<Rightarrow> 3]", goal_cases)
  case 1
  then show ?case by simp
next
  case (2 strtod string nesting x xa)
  then show ?case using length_SKIP_WHITESPACES[of string] by auto
next
  case (3 strtod string nesting x xa)
  then show ?case using length_SKIP_WHITESPACES[of string] by auto
next
  case (4 strtod string nesting x)
  then show ?case
    using length_SKIP_WHITESPACES[of "tl string"] length_tl_peek[of string] by auto
next
  case (5 strtod string nesting output_object x2 x y xa ya xaa)
  then show ?case
    using get_quoted_string_length[of string x xa ya] length_SKIP_WHITESPACES[of ya]
    by auto
next
  case (6 strtod string nesting output_object x2 x y xa ya xaa x2a xab yb xac yc xb xc)
  from 6 have d:
    "parse_value_parse_object_value_parse_object_loop_parse_array_value_parse_array_loop_dom
       (Inl (Inl (strtod, tl xaa, nesting)))"
    by blast
  from 6 have pv: "parse_value strtod (tl xaa) nesting = Some (xab, yb)" by simp
  have "length yb \<le> length (tl xaa)"
    using parse_length_dom(1)[OF d pv] .
  then show ?case
    using 6 get_quoted_string_length[of string x xa ya] length_SKIP_WHITESPACES[of ya]
      length_SKIP_WHITESPACES[of yb] length_SKIP_WHITESPACES[of "tl xb"]
    by auto
next
  case (7 strtod string nesting x)
  then show ?case
    using length_SKIP_WHITESPACES[of "tl string"] length_tl_peek[of string] by auto
next
  case (8 strtod string nesting output_array)
  then show ?case by simp
next
  case (9 strtod string nesting output_array x2 x y xa ya xb xc)
  from 9 have d:
    "parse_value_parse_object_value_parse_object_loop_parse_array_value_parse_array_loop_dom
       (Inl (Inl (strtod, string, nesting)))"
    by blast
  from 9 have pv: "parse_value strtod string nesting = Some (x, y)" by simp
  have "length y \<le> length string"
    using parse_length_dom(1)[OF d pv] .
  then show ?case
    using 9 length_SKIP_WHITESPACES[of y] length_SKIP_WHITESPACES[of "tl xb"]
      length_tl_peek[of xb]
    by auto
qed

declare parse_value.simps [simp del]
declare parse_object_value.simps [simp del]
declare parse_object_loop.simps [simp del]
declare parse_array_value.simps [simp del]
declare parse_array_loop.simps [simp del]

definition json_parse_string :: "strtod_t \<Rightarrow> string option \<Rightarrow> json_value option" where
  "json_parse_string strtod str =
     (case str of
        None \<Rightarrow> None
      | Some string \<Rightarrow>
          (let string =
                 (if char_at string 0 = CHR 0xEF \<and> char_at string 1 = CHR 0xBB
                     \<and> char_at string 2 = CHR 0xBF
                  then drop 3 string else string)
           in map_option fst (parse_value strtod string 0)))"


subsection \<open>The serializer\<close>

text \<open>
  The fields of \<open>JSON_Parser\<close> that serialization reads. A number writer (the hook
  \<open>number_serialization_func\<close>, or the C library's \<open>sprintf\<close> with a format) returns the
  characters it stored, whose count is its return value in C, or \<open>None\<close> for a negative
  return. \<open>sprintf\<close> is a parameter.
\<close>

type_synonym number_writer = "c_double \<Rightarrow> string option"

type_synonym sprintf_t = "string \<Rightarrow> number_writer"

record JSON_Parser =
  number_serialization_func :: "number_writer option"
  float_fmt_str :: "string option"
  escape_slashes :: bool

definition PARSON_DEFAULT_FLOAT_FORMAT :: string where
  "PARSON_DEFAULT_FLOAT_FORMAT = ''%1.17g''"

definition PARSON_INDENT_STR :: string where
  "PARSON_INDENT_STR = ''    ''"

definition json_get_default_parser :: JSON_Parser where
  "json_get_default_parser =
     \<lparr>number_serialization_func = None,
      float_fmt_str = Some PARSON_DEFAULT_FLOAT_FORMAT,
      escape_slashes = True\<rparr>"

text \<open>
  The counts \<open>written\<close> and \<open>written_total\<close> are C \<open>int\<close>s: 32-bit words, read as
  signed (\<open>sint\<close>, \<open><s\<close>). An addition that leaves the range of \<open>int\<close> is undefined in C;
  here it wraps, as on a two's complement machine. The state of a serializing function
  is \<open>written_total\<close> and the bytes stored from the \<open>buf\<close> it was entered with; \<open>buf\<close>
  itself is the flag \<open>buf != NULL\<close>.
\<close>

type_synonym c_int = "32 word"

definition APPEND_STRING :: "bool \<Rightarrow> string \<Rightarrow> c_int \<times> string \<Rightarrow> c_int \<times> string" where
  "APPEND_STRING buf str st =
     (let written = word_of_nat (length str)
      in (fst st + written, if buf then snd st @ str else snd st))"

definition APPEND_INDENT :: "bool \<Rightarrow> int \<Rightarrow> c_int \<times> string \<Rightarrow> c_int \<times> string" where
  "APPEND_INDENT buf level st = ((APPEND_STRING buf PARSON_INDENT_STR) ^^ (nat level)) st"

text \<open>\<open>buf += written; written_total += written\<close> after a call that stored \<open>bytes\<close>.\<close>

definition advance ::
  "bool \<Rightarrow> c_int \<times> string \<Rightarrow> c_int \<times> string \<Rightarrow> c_int \<times> string" where
  "advance buf r st = (fst st + fst r, if buf then snd st @ snd r else snd st)"

definition hex_digit :: "nat \<Rightarrow> char" where
  "hex_digit n = ''0123456789abcdef'' ! (n mod 16)"

text \<open>What the \<open>switch\<close> of \<open>json_serialize_string\<close> appends for the character \<open>c\<close>.\<close>

definition serialize_char :: "JSON_Parser \<Rightarrow> char \<Rightarrow> string" where
  "serialize_char parser c =
     (if c = CHR 0x22 then [CHR 0x5C, CHR 0x22]
      else if c = CHR 0x5C then [CHR 0x5C, CHR 0x5C]
      else if c = CHR 0x08 then [CHR 0x5C, CHR ''b'']
      else if c = CHR 0x0C then [CHR 0x5C, CHR ''f'']
      else if c = CHR 0x0A then [CHR 0x5C, CHR ''n'']
      else if c = CHR 0x0D then [CHR 0x5C, CHR ''r'']
      else if c = CHR 0x09 then [CHR 0x5C, CHR ''t'']
      else if (of_char c :: nat) < 0x20 then
        CHR 0x5C # ''u00'' @ [hex_digit (of_char c div 16), hex_digit (of_char c mod 16)]
      else if c = CHR ''/'' then
        (if escape_slashes parser then [CHR 0x5C, CHR ''/''] else ''/'')
      else [c])"

definition json_serialize_string ::
  "JSON_Parser \<Rightarrow> string \<Rightarrow> nat \<Rightarrow> bool \<Rightarrow> c_int \<times> string" where
  "json_serialize_string parser string len buf =
     APPEND_STRING buf [CHR 0x22]
       (fold (\<lambda>i st. APPEND_STRING buf (serialize_char parser (char_at string i)) st)
          [0..<len]
          (APPEND_STRING buf [CHR 0x22] (0, [])))"

definition write_number :: "sprintf_t \<Rightarrow> JSON_Parser \<Rightarrow> number_writer" where
  "write_number sprintf parser num =
     (case number_serialization_func parser of
        Some f \<Rightarrow> f num
      | None \<Rightarrow>
          (case float_fmt_str parser of
             Some fmt \<Rightarrow> sprintf fmt num
           | None \<Rightarrow> sprintf PARSON_DEFAULT_FLOAT_FORMAT num))"

lemma value_size_object_get_value_at:
  assumes t: "json_value_get_type a = JSONObject"
  shows "value_size (json_object_get_value_at (json_value_get_object a) i) < value_size a"
proof (cases a)
  case None
  then show ?thesis using t by (simp add: json_value_get_type_def)
next
  case (Some x)
  from t obtain object where x: "x = JObject object"
    using Some by (cases x) (simp_all add: json_value_get_type_def)
  have "\<And>i. i < count object \<Longrightarrow>
      size (entry_value (entries object ! i)) < Suc (size_json_object_t size object)"
    by (rule size_entry_value) (simp add: count_def)
  then show ?thesis
    using Some x
    by (auto simp add: json_object_get_value_at_def json_object_get_count_def
        json_value_get_object_def value_size_def)
qed

text \<open>
  The result of \<open>json_serialize_to_buffer_r\<close> is its return value and the bytes it
  stored at \<open>buf\<close> (none in the measuring pass, and none kept after a return of -1).
  The state of each loop is \<open>None\<close> once the function has returned -1. Every
  \<open>if (written < 0) return -1\<close> of the source is a test \<open>written <s 0\<close>.
\<close>

function json_serialize_to_buffer_r ::
  "sprintf_t \<Rightarrow> JSON_Parser \<Rightarrow> json_value option \<Rightarrow> bool \<Rightarrow> int \<Rightarrow> bool \<Rightarrow> c_int \<times> string"
where
  "json_serialize_to_buffer_r sprintf parser v buf level is_pretty =
     (case json_value_get_type v of
        JSONArray \<Rightarrow>
          (let array = json_value_get_array v;
               cnt = json_array_get_count array;
               st = APPEND_STRING buf ''['' (0, []);
               st = (if cnt > 0 \<and> is_pretty then APPEND_STRING buf [CHR 0x0A] st else st)
           in case fold
                (\<lambda>i state.
                   case state of
                     None \<Rightarrow> None
                   | Some st \<Rightarrow>
                       (let st = (if is_pretty then APPEND_INDENT buf (level + 1) st else st);
                            r = json_serialize_to_buffer_r sprintf parser
                                  (json_array_get_value (json_value_get_array v) i)
                                  buf (level + 1) is_pretty
                        in if fst r <s 0 then None
                           else
                             (let st = advance buf r st;
                                  st = (if i < cnt - 1 then APPEND_STRING buf '','' st else st);
                                  st = (if is_pretty then APPEND_STRING buf [CHR 0x0A] st else st)
                              in Some st)))
                [0..<cnt] (Some st) of
                None \<Rightarrow> (- 1, [])
              | Some st \<Rightarrow>
                  (let st = (if cnt > 0 \<and> is_pretty then APPEND_INDENT buf level st else st)
                   in APPEND_STRING buf '']'' st))
      | JSONObject \<Rightarrow>
          (let object = json_value_get_object v;
               cnt = json_object_get_count object;
               st = APPEND_STRING buf ''{'' (0, []);
               st = (if cnt > 0 \<and> is_pretty then APPEND_STRING buf [CHR 0x0A] st else st)
           in case fold
                (\<lambda>i state.
                   case state of
                     None \<Rightarrow> None
                   | Some st \<Rightarrow>
                       (case json_object_get_name object i of
                          None \<Rightarrow> None
                        | Some key \<Rightarrow>
                            (let st = (if is_pretty then APPEND_INDENT buf (level + 1) st else st);
                                 k = json_serialize_string parser key (strlen key) buf
                             in if fst k <s 0 then None
                                else
                                  (let st = advance buf k st;
                                       st = APPEND_STRING buf '':'' st;
                                       st = (if is_pretty then APPEND_STRING buf '' '' st else st);
                                       r = json_serialize_to_buffer_r sprintf parser
                                             (json_object_get_value_at (json_value_get_object v) i)
                                             buf (level + 1) is_pretty
                                   in if fst r <s 0 then None
                                      else
                                        (let st = advance buf r st;
                                             st = (if i < cnt - 1 then APPEND_STRING buf '','' st
                                                   else st);
                                             st = (if is_pretty then APPEND_STRING buf [CHR 0x0A] st
                                                   else st)
                                         in Some st)))))
                [0..<cnt] (Some st) of
                None \<Rightarrow> (- 1, [])
              | Some st \<Rightarrow>
                  (let st = (if cnt > 0 \<and> is_pretty then APPEND_INDENT buf level st else st)
                   in APPEND_STRING buf ''}'' st))
      | JSONString \<Rightarrow>
          (case json_value_get_string v of
             None \<Rightarrow> (- 1, [])
           | Some string \<Rightarrow>
               (let r = json_serialize_string parser string (json_value_get_string_len v) buf
                in if fst r <s 0 then (- 1, []) else advance buf r (0, [])))
      | JSONBoolean \<Rightarrow>
          (if json_value_get_boolean v \<noteq> 0 then APPEND_STRING buf ''true'' (0, [])
           else APPEND_STRING buf ''false'' (0, []))
      | JSONNumber \<Rightarrow>
          (case write_number sprintf parser (json_value_get_number v) of
             None \<Rightarrow> (- 1, [])
           | Some digits \<Rightarrow>
               (let written = word_of_nat (length digits)
                in if written <s 0 then (- 1, []) else advance buf (written, digits) (0, [])))
      | JSONNull \<Rightarrow> APPEND_STRING buf ''null'' (0, [])
      | JSONError \<Rightarrow> (- 1, []))"
  by pat_completeness auto
termination
proof (relation "measure (\<lambda>(sprintf, parser, v, buf, level, is_pretty). value_size v)", goal_cases)
  case 1
  then show ?case by simp
next
  case (2 sprintf parser v buf level is_pretty x xa xb xc xd)
  then have "json_value_get_type v = JSONObject" by metis
  then show ?case by (simp add: value_size_object_get_value_at)
next
  case (3 sprintf parser v buf level is_pretty x xa xb xc xd)
  then have "json_value_get_type v = JSONArray" by metis
  then show ?case by (simp add: value_size_array_get_value)
qed

declare json_serialize_to_buffer_r.simps [simp del]

definition json_serialization_size :: "sprintf_t \<Rightarrow> JSON_Parser \<Rightarrow> json_value option \<Rightarrow> nat" where
  "json_serialization_size sprintf parser v =
     (let res = fst (json_serialize_to_buffer_r sprintf parser v False 0 False)
      in if res <s 0 then 0 else nat (sint res) + 1)"

text \<open>
  \<open>json_serialize_to_buffer\<close> returns the status and the C string that the buffer
  holds after a success.
\<close>

definition json_serialize_to_buffer ::
  "sprintf_t \<Rightarrow> JSON_Parser \<Rightarrow> json_value option \<Rightarrow> nat \<Rightarrow> JSON_Status \<times> string" where
  "json_serialize_to_buffer sprintf parser v buf_size_in_bytes =
     (let needed_size_in_bytes = json_serialization_size sprintf parser v
      in if needed_size_in_bytes = 0 \<or> buf_size_in_bytes < needed_size_in_bytes
         then (JSONFailure, [])
         else
           (let r = json_serialize_to_buffer_r sprintf parser v True 0 False
            in if fst r <s 0 then (JSONFailure, []) else (JSONSuccess, snd r)))"

definition json_serialize_to_string ::
  "sprintf_t \<Rightarrow> JSON_Parser \<Rightarrow> json_value option \<Rightarrow> string option" where
  "json_serialize_to_string sprintf parser v =
     (let buf_size_bytes = json_serialization_size sprintf parser v
      in if buf_size_bytes = 0 then None
         else (case json_serialize_to_buffer sprintf parser v buf_size_bytes of
                 (JSONFailure, _) \<Rightarrow> None
               | (JSONSuccess, buf) \<Rightarrow> Some buf))"

definition json_serialization_size_pretty ::
  "sprintf_t \<Rightarrow> JSON_Parser \<Rightarrow> json_value option \<Rightarrow> nat" where
  "json_serialization_size_pretty sprintf parser v =
     (let res = fst (json_serialize_to_buffer_r sprintf parser v False 0 True)
      in if res <s 0 then 0 else nat (sint res) + 1)"

definition json_serialize_to_buffer_pretty ::
  "sprintf_t \<Rightarrow> JSON_Parser \<Rightarrow> json_value option \<Rightarrow> nat \<Rightarrow> JSON_Status \<times> string" where
  "json_serialize_to_buffer_pretty sprintf parser v buf_size_in_bytes =
     (let needed_size_in_bytes = json_serialization_size_pretty sprintf parser v
      in if needed_size_in_bytes = 0 \<or> buf_size_in_bytes < needed_size_in_bytes
         then (JSONFailure, [])
         else
           (let r = json_serialize_to_buffer_r sprintf parser v True 0 True
            in if fst r <s 0 then (JSONFailure, []) else (JSONSuccess, snd r)))"

definition json_serialize_to_string_pretty ::
  "sprintf_t \<Rightarrow> JSON_Parser \<Rightarrow> json_value option \<Rightarrow> string option" where
  "json_serialize_to_string_pretty sprintf parser v =
     (let buf_size_bytes = json_serialization_size_pretty sprintf parser v
      in if buf_size_bytes = 0 then None
         else (case json_serialize_to_buffer_pretty sprintf parser v buf_size_bytes of
                 (JSONFailure, _) \<Rightarrow> None
               | (JSONSuccess, buf) \<Rightarrow> Some buf))"

text \<open>
  The two passes, related: \<open>m\<close> is a state (or a result) of the measuring pass and
  \<open>w\<close> the state of the writing pass at the same point.
\<close>

definition ok_rel :: "c_int \<times> string \<Rightarrow> c_int \<times> string \<Rightarrow> bool" where
  "ok_rel m w \<longleftrightarrow>
     fst m = fst w \<and> snd m = [] \<and> fst w = word_of_nat (length (snd w))"

definition pass_rel :: "c_int \<times> string \<Rightarrow> c_int \<times> string \<Rightarrow> bool" where
  "pass_rel m w \<longleftrightarrow> ok_rel m w \<or> (m = (- 1, []) \<and> w = (- 1, []))"

subsection \<open>The invariant of the hash table\<close>

text \<open>The C string that a buffer holds: its bytes up to the first NUL.\<close>

definition c_str :: "string \<Rightarrow> string" where
  "c_str s = takeWhile (\<lambda>c. c \<noteq> CHR 0x00) s"





text \<open>The finite map that a table stands for.\<close>

definition table_pairs :: "'v json_object_t \<Rightarrow> (string \<times> 'v) list" where
  "table_pairs object = map (\<lambda>e. (c_str (entry_name e), entry_value e)) (entries object)"

definition table_map :: "'v json_object_t \<Rightarrow> string \<rightharpoonup> 'v" where
  "table_map object = map_of (table_pairs object)"

text \<open>The home cell and the cell of entry \<open>e\<close>.\<close>

definition entry_home :: "'v json_object_t \<Rightarrow> nat \<Rightarrow> nat" where
  "entry_home object e = home_cell (entry_hash (entries object ! e)) (cell_capacity object)"

definition entry_cell :: "'v json_object_t \<Rightarrow> nat \<Rightarrow> nat" where
  "entry_cell object e = entry_cell_ix (entries object ! e)"


text \<open>The last store of \<open>json_object_remove_internal\<close>: \<open>cells[i] = OBJECT_INVALID_IX\<close>.\<close>

definition close_hole :: "'v json_object_t \<Rightarrow> nat \<Rightarrow> 'v json_object_t" where
  "close_hole object i =
     JSON_Object ((cells object)[i := None]) (entries object) (item_capacity object)"




subsection \<open>Sequences of operations on a table\<close>












subsection \<open>Inputs of the examples\<close>

text \<open>A \<open>strtod\<close> that converts nothing: what the C library does on text that is no number.\<close>

definition strtod_nothing :: strtod_t where
  "strtod_nothing s = (Finite 0, 0, NoError)"

definition low_surrogate_follows :: "string \<Rightarrow> bool" where
  "low_surrogate_follows rest =
     (char_at rest 0 = CHR 0x5C \<and> char_at rest 1 = CHR ''u''
      \<and> (case parse_utf16_hex (drop 2 rest) of
            None \<Rightarrow> False
          | Some trail \<Rightarrow> 0xDC00 \<le> trail \<and> trail \<le> 0xDFFF))"

text \<open>\<open>n\<close> opening brackets and their \<open>n\<close> closers, and the value they denote.\<close>

definition nested_brackets :: "nat \<Rightarrow> string" where
  "nested_brackets n = replicate n CHR ''['' @ replicate n CHR '']''"

fun nested_arrays :: "nat \<Rightarrow> json_value" where
  "nested_arrays 0 = JArray []"
| "nested_arrays (Suc n) = JArray [nested_arrays n]"

text \<open>A \<open>sprintf\<close> that fails: no number is written in the examples.\<close>

definition sprintf_none :: sprintf_t where
  "sprintf_none fmt x = None"

definition serialization_example :: json_value where
  "serialization_example = JArray [JNull, JString ''a/b'', JArray [JBoolean 0]]"




section \<open>Equality and the null pointer\<close>

text \<open>
  C9. \<open>json_value_equals\<close> of two null pointers is true: both have the type
  \<open>JSONError\<close>, and two values of that type are equal. A null pointer and a non-null
  value (whose type is never \<open>JSONError\<close>) are not equal, in either order.
\<close>

theorem json_value_equals_null:
  "json_value_get_type None = JSONError
   \<and> json_value_equals fsub None None = True
   \<and> json_value_get_type (Some v) \<noteq> JSONError
   \<and> json_value_equals fsub None (Some v) = False
   \<and> json_value_equals fsub (Some v) None = False"
proof -
  have t: "json_value_get_type (Some v) \<noteq> JSONError"
    by (cases v) (simp_all add: json_value_get_type_def)
  have n: "json_value_get_type None = JSONError"
    by (simp add: json_value_get_type_def)
  have "json_value_equals fsub None None"
    by (subst json_value_equals.simps) (simp add: n)
  moreover have "\<not> json_value_equals fsub None (Some v)"
    using t by (subst json_value_equals.simps) (simp add: n)
  moreover have "\<not> json_value_equals fsub (Some v) None"
    using t by (subst json_value_equals.simps) (simp add: n)
  ultimately show ?thesis using t n by simp
qed

section \<open>Booleans\<close>

text \<open>
  C10. \<open>json_value_init_boolean\<close> stores 1 for a nonzero argument and 0 for zero, so
  \<open>json_value_get_boolean\<close> of the value it makes is 0 or 1 and never the sentinel -1;
  every value that is not a boolean (the null pointer included) reads as -1.
\<close>

theorem json_value_init_boolean_normalizes:
  "json_value_init_boolean b = Some (JBoolean (if b = 0 then 0 else 1))
   \<and> json_value_get_boolean (json_value_init_boolean b) = (if b = 0 then 0 else 1)
   \<and> json_value_get_boolean (json_value_init_boolean b) \<noteq> - 1
   \<and> (json_value_get_type v \<noteq> JSONBoolean \<longrightarrow> json_value_get_boolean v = - 1)"
proof -
  have "json_value_get_type v \<noteq> JSONBoolean \<longrightarrow> json_value_get_boolean v = - 1"
  proof (cases v)
    case None
    then show ?thesis by (simp add: json_value_get_boolean_def)
  next
    case (Some x)
    then show ?thesis
      by (cases x) (simp_all add: json_value_get_boolean_def json_value_get_type_def)
  qed
  then show ?thesis
    by (simp add: json_value_init_boolean_def json_value_get_boolean_def)
qed

theorem json_value_init_boolean_normalizes_witness:
  "json_value_init_boolean 7 = Some (JBoolean 1)
   \<and> json_value_get_boolean (json_value_init_boolean 7) = 1
   \<and> json_value_get_type (Some (JString ''x'')) \<noteq> JSONBoolean
   \<and> json_value_get_boolean (Some (JString ''x'')) = - 1"
  using json_value_init_boolean_normalizes [of 7 "Some (JString ''x'')"]
  by (simp add: json_value_get_type_def json_value_get_boolean_def)

section \<open>Surrogate pairs\<close>

lemma parse_utf16_lone_high:
  assumes hex: "parse_utf16_hex (hs @ rest) = Some lead" and len: "length hs = 4"
    and hi: "0xD800 \<le> lead" "lead \<le> 0xDBFF"
    and lone: "\<not> low_surrogate_follows rest"
  shows "parse_utf16 (CHR ''u'' # hs @ rest) = None"
proof -
  have d: "drop 4 (hs @ rest) = rest" using len by simp
  have "\<not> lead < 0x80" "\<not> lead < 0x800" "\<not> (lead < 0xD800 \<or> lead > 0xDFFF)"
    using hi by (auto simp add: word_less_def word_le_def)
  then show ?thesis
    using hex hi lone d
    by (auto simp add: parse_utf16_def Let_def low_surrogate_follows_def split: option.splits)
qed

lemma json_parse_string_lone_high:
  assumes hex: "parse_utf16_hex (hs @ rest) = Some lead" and len: "length hs = 4"
    and hi: "0xD800 \<le> lead" "lead \<le> 0xDBFF"
    and lone: "\<not> low_surrogate_follows rest"
  shows "json_parse_string strtod (Some (CHR 0x22 # CHR 0x5C # CHR ''u'' # hs @ rest)) = None"
proof -
  let ?s = "CHR 0x22 # CHR 0x5C # CHR ''u'' # hs @ rest"
  have pu: "parse_utf16 (CHR ''u'' # hs @ rest) = None"
    using assms by (rule parse_utf16_lone_high)
  have gq: "get_quoted_string ?s = None"
  proof (cases "skip_quotes ?s")
    case None
    then show ?thesis by (simp add: get_quoted_string_def)
  next
    case (Some r)
    then have "skip_quotes_loop (hs @ rest) = Some r"
      by (simp add: skip_quotes_def peek_def split: if_splits)
    then have "length r < length (hs @ rest)" by (rule skip_quotes_loop_length)
    then have pos: "0 < length ?s - length r - 2" by simp
    have "process_string_loop (CHR 0x5C # CHR ''u'' # hs @ rest) 0 n [] = None" if "0 < n" for n
      using that pu by (subst process_string_loop.simps) (simp add: peek_def Let_def)
    from this[OF pos]
    have "process_string (tl ?s) (length ?s - length r - 2) = None"
      by (simp add: process_string_def)
    then show ?thesis using Some by (simp add: get_quoted_string_def Let_def)
  qed
  have "parse_value strtod ?s 0 = None"
    using gq
    by (simp add: parse_value.simps MAX_NESTING_def SKIP_WHITESPACES_def isspace_def peek_def
        Let_def parse_string_value_def)
  then show ?thesis
    by (simp add: json_parse_string_def char_at_def)
qed

text \<open>
  C8. The string literal made of the escape of D83D and the escape of DE00 parses to a
  string of exactly the four bytes F0 9F 98 80, the UTF-8 encoding of U+1F600. A literal
  that starts with the escape of a high surrogate (0xD800 to 0xDBFF) that no escape of
  a low surrogate (0xDC00 to 0xDFFF) follows does not parse; the lone escape of D800 is
  the instance shown.
\<close>

theorem surrogate_pairs:
  "json_parse_string strtod
      (Some (CHR 0x22 # CHR 0x5C # ''uD83D'' @ CHR 0x5C # ''uDE00'' @ [CHR 0x22]))
     = Some (JString [CHR 0xF0, CHR 0x9F, CHR 0x98, CHR 0x80])
   \<and> json_parse_string strtod (Some (CHR 0x22 # CHR 0x5C # ''uD800'' @ [CHR 0x22])) = None
   \<and> (parse_utf16_hex (hs @ rest) = Some lead \<and> length hs = 4
        \<and> 0xD800 \<le> lead \<and> lead \<le> 0xDBFF \<and> \<not> low_surrogate_follows rest
      \<longrightarrow> json_parse_string strtod (Some (CHR 0x22 # CHR 0x5C # CHR ''u'' # hs @ rest)) = None)"
proof -
  have a: "json_parse_string strtod
      (Some (CHR 0x22 # CHR 0x5C # ''uD83D'' @ CHR 0x5C # ''uDE00'' @ [CHR 0x22]))
     = Some (JString [CHR 0xF0, CHR 0x9F, CHR 0x98, CHR 0x80])"
    by code_simp
  have b: "json_parse_string strtod (Some (CHR 0x22 # CHR 0x5C # ''uD800'' @ [CHR 0x22])) = None"
    by code_simp
  show ?thesis using a b json_parse_string_lone_high by blast
qed

theorem surrogate_pairs_witness:
  "parse_utf16_hex (''DBFF'' @ CHR 0x5C # ''u0041'' @ [CHR 0x22]) = Some 0xDBFF
   \<and> \<not> low_surrogate_follows (CHR 0x5C # ''u0041'' @ [CHR 0x22])
   \<and> json_parse_string strtod_nothing
        (Some (CHR 0x22 # CHR 0x5C # CHR ''u'' # ''DBFF'' @ CHR 0x5C # ''u0041'' @ [CHR 0x22]))
      = None"
proof -
  have h: "parse_utf16_hex (''DBFF'' @ CHR 0x5C # ''u0041'' @ [CHR 0x22]) = Some 0xDBFF"
    by code_simp
  have l: "\<not> low_surrogate_follows (CHR 0x5C # ''u0041'' @ [CHR 0x22])"
    by code_simp
  have r: "(0xD800 :: 32 word) \<le> 0xDBFF \<and> (0xDBFF :: 32 word) \<le> 0xDBFF" by simp
  show ?thesis
    using surrogate_pairs [of strtod_nothing "''DBFF''" "CHR 0x5C # ''u0041'' @ [CHR 0x22]" "0xDBFF"]
      h l r
    by simp
qed
section \<open>The nesting ceiling\<close>

lemma SKIP_WHITESPACES_bracket [simp]:
  "SKIP_WHITESPACES (CHR ''['' # s) = CHR ''['' # s"
  "SKIP_WHITESPACES (CHR '']'' # s) = CHR '']'' # s"
  by (simp_all add: SKIP_WHITESPACES_def isspace_def)

lemma peek_Cons [simp]: "peek (c # s) = c"
  by (simp add: peek_def)

lemma parse_value_brackets:
  "parse_value strtod (replicate (Suc k) CHR ''['' @ replicate (Suc k) CHR '']'' @ rest) m =
     (if m + k \<le> MAX_NESTING then Some (nested_arrays k, rest) else None)"
proof (induction k arbitrary: m rest)
  case 0
  show ?case
    by (simp add: parse_value.simps parse_array_value.simps Let_def)
next
  case (Suc k)
  define t where "t = replicate (Suc k) CHR ''['' @ replicate (Suc k) CHR '']'' @ (CHR '']'' # rest)"
  have inner: "parse_value strtod t (Suc m) =
     (if Suc m + k \<le> MAX_NESTING then Some (nested_arrays k, CHR '']'' # rest) else None)"
    unfolding t_def by (rule Suc.IH)
  have shape: "replicate (Suc (Suc k)) CHR ''['' @ replicate (Suc (Suc k)) CHR '']'' @ rest
      = CHR ''['' # t"
    by (simp add: t_def replicate_append_same)
  have ws: "SKIP_WHITESPACES t = t" and pk: "peek t = CHR ''[''"
    by (simp_all add: t_def)
  have loop: "parse_array_loop strtod t (Suc m) [] =
     (if Suc m + k \<le> MAX_NESTING then Some (nested_arrays (Suc k), rest) else None)"
    by (subst parse_array_loop.simps)
      (simp add: inner pk Let_def json_array_add_def parse_array_end_def json_array_resize_def)
  have av: "parse_array_value strtod (CHR ''['' # t) (Suc m) =
     (if Suc m + k \<le> MAX_NESTING then Some (nested_arrays (Suc k), rest) else None)"
    by (subst parse_array_value.simps) (simp add: ws pk loop Let_def)
  show ?case
    unfolding shape
    by (subst parse_value.simps) (simp add: Let_def av)
qed

lemma json_parse_string_brackets:
  "json_parse_string strtod (Some (nested_brackets (Suc k))) =
     (if k \<le> MAX_NESTING then Some (nested_arrays k) else None)"
  using parse_value_brackets[of strtod k "[]" 0]
  by (simp add: json_parse_string_def nested_brackets_def char_at_def)

text \<open>
  C6, as stated, fails: 2049 nested brackets with their closers parse.
\<close>

theorem nesting_2049_counterexample:
  "json_parse_string strtod_nothing (Some (nested_brackets 2049)) \<noteq> None"
proof -
  have "json_parse_string strtod_nothing (Some (nested_brackets (Suc 2048))) =
     (if (2048::nat) \<le> MAX_NESTING then Some (nested_arrays 2048) else None)"
    by (rule json_parse_string_brackets)
  then show ?thesis by (simp add: MAX_NESTING_def)
qed

text \<open>
  C6, amended. \<open>parse_value\<close> fails exactly when its nesting argument, the count of
  containers that enclose the value, exceeds 2048 (whatever the input), and the
  outermost value has nesting 0: \<open>n\<close> nested brackets with their closers, for \<open>n\<close> at
  least 1, parse if and only if \<open>n\<close> is at most 2049. So 2049 levels parse and 2050 do
  not.
\<close>

theorem nesting_ceiling:
  "(MAX_NESTING < nesting \<longrightarrow> parse_value strtod s nesting = None)
   \<and> (1 \<le> n \<longrightarrow>
        (json_parse_string strtod (Some (nested_brackets n)) \<noteq> None \<longleftrightarrow> n \<le> 2049))
   \<and> json_parse_string strtod (Some (nested_brackets 2049)) = Some (nested_arrays 2048)
   \<and> json_parse_string strtod (Some (nested_brackets 2050)) = None"
proof -
  have a: "MAX_NESTING < nesting \<longrightarrow> parse_value strtod s nesting = None"
    by (simp add: parse_value.simps)
  have b: "1 \<le> n \<longrightarrow>
        (json_parse_string strtod (Some (nested_brackets n)) \<noteq> None \<longleftrightarrow> n \<le> 2049)"
  proof
    assume "1 \<le> n"
    then obtain k where n: "n = Suc k" by (cases n) simp_all
    show "json_parse_string strtod (Some (nested_brackets n)) \<noteq> None \<longleftrightarrow> n \<le> 2049"
      unfolding n json_parse_string_brackets by (simp add: MAX_NESTING_def)
  qed
  have c: "json_parse_string strtod (Some (nested_brackets (Suc 2048))) = Some (nested_arrays 2048)"
    unfolding json_parse_string_brackets by (simp add: MAX_NESTING_def)
  have d: "json_parse_string strtod (Some (nested_brackets (Suc 2049))) = None"
    unfolding json_parse_string_brackets by (simp add: MAX_NESTING_def)
  show ?thesis using a b c d by simp
qed

theorem nesting_ceiling_witness:
  "MAX_NESTING < 2049 \<and> parse_value strtod_nothing ''[]'' 2049 = None
   \<and> (1::nat) \<le> 3 \<and> json_parse_string strtod_nothing (Some (nested_brackets 3)) \<noteq> None"
  using nesting_ceiling [of 2049 strtod_nothing "''[]''" 3]
  by (simp add: MAX_NESTING_def)
section \<open>Trailing characters\<close>

text \<open>
  C5, as stated, fails: the value \<open>null\<close> followed by a space and the garbage \<open>x\<close>
  parses to \<open>null\<close>.
\<close>

theorem trailing_garbage_counterexample:
  "json_parse_string strtod_nothing (Some ''null x'') = Some JNull"
  by code_simp

text \<open>
  C5, amended. \<open>json_parse_string\<close> returns the value that \<open>parse_value\<close> reads at the
  start of the input and never examines the rest of the input: when \<open>parse_value\<close>
  yields a value with any remainder, empty or not, that value is the result. So
  \<open>null\<close>, \<open>true\<close>, \<open>false\<close>, an empty array, an empty object and an empty string parse
  to those values whatever characters \<open>g\<close> follow them.
\<close>

theorem trailing_garbage_ignored:
  "(parse_value strtod s 0 = Some (v, rest) \<and> char_at s 0 \<noteq> CHR 0xEF
      \<longrightarrow> json_parse_string strtod (Some s) = Some v)
   \<and> json_parse_string strtod (Some (''null'' @ g)) = Some JNull
   \<and> json_parse_string strtod (Some (''true'' @ g)) = Some (JBoolean 1)
   \<and> json_parse_string strtod (Some (''false'' @ g)) = Some (JBoolean 0)
   \<and> json_parse_string strtod (Some (''[]'' @ g)) = Some (JArray [])
   \<and> json_parse_string strtod (Some (''{}'' @ g)) = Some (JObject json_object_make)
   \<and> json_parse_string strtod (Some (CHR 0x22 # CHR 0x22 # g)) = Some (JString [])"
proof -
  have ws: "\<And>c t. \<not> isspace c \<Longrightarrow> SKIP_WHITESPACES (c # t) = c # t"
    by (simp add: SKIP_WHITESPACES_def)
  have a: "parse_value strtod s 0 = Some (v, rest) \<and> char_at s 0 \<noteq> CHR 0xEF
      \<longrightarrow> json_parse_string strtod (Some s) = Some v"
    by (simp add: json_parse_string_def)
  have n: "strncmp_eq ''null'' (''null'' @ g) 4"
    by (simp add: eval_nat_numeral)
  have t: "strncmp_eq ''true'' (''true'' @ g) 4"
    by (simp add: eval_nat_numeral)
  have f: "strncmp_eq ''false'' (''false'' @ g) 5" "\<not> strncmp_eq ''true'' (''false'' @ g) 4"
    by (simp_all add: eval_nat_numeral)
  have b: "json_parse_string strtod (Some (''null'' @ g)) = Some JNull"
    using n
    by (simp add: json_parse_string_def char_at_def parse_value.simps MAX_NESTING_def ws
        isspace_def Let_def is_number_start_def parse_null_value_def json_value_init_null_def)
  have c: "json_parse_string strtod (Some (''true'' @ g)) = Some (JBoolean 1)"
    using t
    by (simp add: json_parse_string_def char_at_def parse_value.simps MAX_NESTING_def ws
        isspace_def Let_def parse_boolean_value_def json_value_init_boolean_def)
  have d: "json_parse_string strtod (Some (''false'' @ g)) = Some (JBoolean 0)"
    using f
    by (simp add: json_parse_string_def char_at_def parse_value.simps MAX_NESTING_def ws
        isspace_def Let_def parse_boolean_value_def json_value_init_boolean_def)
  have e: "json_parse_string strtod (Some (''[]'' @ g)) = Some (JArray [])"
    by (simp add: json_parse_string_def char_at_def parse_value.simps MAX_NESTING_def
        Let_def parse_array_value.simps)
  have h: "json_parse_string strtod (Some (''{}'' @ g)) = Some (JObject json_object_make)"
    by (simp add: json_parse_string_def char_at_def parse_value.simps MAX_NESTING_def ws
        isspace_def Let_def parse_object_value.simps)
  have i: "json_parse_string strtod (Some (CHR 0x22 # CHR 0x22 # g)) = Some (JString [])"
    by (simp add: json_parse_string_def char_at_def parse_value.simps MAX_NESTING_def ws
        isspace_def Let_def parse_string_value_def get_quoted_string_def skip_quotes_def
        process_string_def process_string_loop.simps json_value_init_string_no_copy_def)
  show ?thesis using a b c d e h i by blast
qed

theorem trailing_garbage_ignored_witness:
  "parse_value strtod_nothing ''[true] garbage'' 0 = Some (JArray [JBoolean 1], '' garbage'')
   \<and> char_at ''[true] garbage'' 0 \<noteq> CHR 0xEF
   \<and> json_parse_string strtod_nothing (Some ''[true] garbage'') = Some (JArray [JBoolean 1])"
proof -
  have p: "parse_value strtod_nothing ''[true] garbage'' 0 = Some (JArray [JBoolean 1], '' garbage'')"
    by code_simp
  have c: "char_at ''[true] garbage'' 0 \<noteq> CHR 0xEF"
    by code_simp
  show ?thesis
    using trailing_garbage_ignored [of strtod_nothing "''[true] garbage''" "JArray [JBoolean 1]"
        "'' garbage''" "[]"] p c
    by simp
qed
section \<open>The measuring pass and the writing pass\<close>

lemma ok_rel_init: "ok_rel (0, []) (0, [])"
  by (simp add: ok_rel_def)

lemma ok_rel_APPEND_STRING:
  "ok_rel m w \<Longrightarrow> ok_rel (APPEND_STRING False str m) (APPEND_STRING True str w)"
  by (simp add: ok_rel_def APPEND_STRING_def Let_def)

lemma ok_rel_funpow:
  "ok_rel m w \<Longrightarrow> ok_rel ((APPEND_STRING False str ^^ n) m) ((APPEND_STRING True str ^^ n) w)"
  by (induction n) (simp_all add: ok_rel_APPEND_STRING)

lemma ok_rel_APPEND_INDENT:
  "ok_rel m w \<Longrightarrow> ok_rel (APPEND_INDENT False level m) (APPEND_INDENT True level w)"
  unfolding APPEND_INDENT_def by (rule ok_rel_funpow)

lemma ok_rel_advance:
  "ok_rel m w \<Longrightarrow> ok_rel rm rw \<Longrightarrow> ok_rel (advance False rm m) (advance True rw w)"
  by (simp add: ok_rel_def advance_def)

lemma ok_rel_fold_APPEND_STRING:
  "ok_rel m w \<Longrightarrow>
   ok_rel (fold (\<lambda>i st. APPEND_STRING False (f i) st) xs m)
          (fold (\<lambda>i st. APPEND_STRING True (f i) st) xs w)"
  by (induction xs arbitrary: m w) (simp_all add: ok_rel_APPEND_STRING)

lemma ok_rel_json_serialize_string:
  "ok_rel (json_serialize_string parser s len False) (json_serialize_string parser s len True)"
  unfolding json_serialize_string_def
  by (intro ok_rel_APPEND_STRING ok_rel_fold_APPEND_STRING ok_rel_init)

lemma rel_option_fold:
  assumes "\<And>i a b. i \<in> set xs \<Longrightarrow> rel_option R a b \<Longrightarrow> rel_option R (f i a) (g i b)"
    and "rel_option R a b"
  shows "rel_option R (fold f xs a) (fold g xs b)"
  using assms by (induction xs arbitrary: a b) simp_all

lemma pass_rel_not_negative: "pass_rel m w \<Longrightarrow> \<not> fst w <s 0 \<Longrightarrow> ok_rel m w"
  by (auto simp add: pass_rel_def)

lemma pass_rel_fst: "pass_rel m w \<Longrightarrow> fst m = fst w"
  by (auto simp add: pass_rel_def ok_rel_def)

lemma json_serialize_to_buffer_r_passes:
  "pass_rel (json_serialize_to_buffer_r sprintf parser v False level is_pretty)
            (json_serialize_to_buffer_r sprintf parser v True level is_pretty)"
proof (induction sprintf parser v "True" level is_pretty
    rule: json_serialize_to_buffer_r.induct)
  case (1 sprintf parser v level is_pretty)
  show ?case
  proof (cases "json_value_get_type v")
    case JSONError
    then show ?thesis
      by (simp add: json_serialize_to_buffer_r.simps[of _ _ v] pass_rel_def)
  next
    case JSONNull
    then show ?thesis
      by (simp add: json_serialize_to_buffer_r.simps[of _ _ v] pass_rel_def
          ok_rel_APPEND_STRING ok_rel_init)
  next
    case JSONString
    have k: "ok_rel (json_serialize_string parser s len False)
               (json_serialize_string parser s len True)" for s len
      by (rule ok_rel_json_serialize_string)
    have f: "fst (json_serialize_string parser s len False)
               = fst (json_serialize_string parser s len True)" for s len
      using k[of s len] by (simp add: ok_rel_def)
    from JSONString show ?thesis
      by (auto simp add: json_serialize_to_buffer_r.simps[of _ _ v] pass_rel_def Let_def f
          ok_rel_advance k ok_rel_init split: option.splits)
  next
    case JSONNumber
    have n: "ok_rel (advance False (word_of_nat (length digits), digits) (0, []))
                    (advance True (word_of_nat (length digits), digits) (0, []))" for digits
      by (simp add: ok_rel_def advance_def)
    from JSONNumber show ?thesis
      by (auto simp add: json_serialize_to_buffer_r.simps[of _ _ v] pass_rel_def Let_def n
          split: option.splits)
  next
    case JSONBoolean
    then show ?thesis
      by (simp add: json_serialize_to_buffer_r.simps[of _ _ v] pass_rel_def
          ok_rel_APPEND_STRING ok_rel_init)
  next
    case JSONArray
    define cnt where "cnt = json_array_get_count (json_value_get_array v)"
    define st0 where "st0 = (\<lambda>buf.
      let st = APPEND_STRING buf ''['' (0, [])
      in if cnt > 0 \<and> is_pretty then APPEND_STRING buf [CHR 0x0A] st else st)"
    define step where "step = (\<lambda>buf i state.
       case state of
         None \<Rightarrow> None
       | Some st \<Rightarrow>
           (let st = (if is_pretty then APPEND_INDENT buf (level + 1) st else st);
                r = json_serialize_to_buffer_r sprintf parser
                      (json_array_get_value (json_value_get_array v) i)
                      buf (level + 1) is_pretty
            in if fst r <s 0 then None
               else
                 (let st = advance buf r st;
                      st = (if i < cnt - 1 then APPEND_STRING buf '','' st else st);
                      st = (if is_pretty then APPEND_STRING buf [CHR 0x0A] st else st)
                  in Some st)))"
    have eq: "json_serialize_to_buffer_r sprintf parser v buf level is_pretty =
      (case fold (step buf) [0..<cnt] (Some (st0 buf)) of
         None \<Rightarrow> (- 1, [])
       | Some st \<Rightarrow>
           (let st = (if cnt > 0 \<and> is_pretty then APPEND_INDENT buf level st else st)
            in APPEND_STRING buf '']'' st))" for buf
      apply (subst json_serialize_to_buffer_r.simps)
      unfolding cnt_def st0_def step_def Let_def JSONArray JSON_Value_Type.case
      by (rule refl)
    have init: "ok_rel (st0 False) (st0 True)"
      by (simp add: st0_def Let_def ok_rel_APPEND_STRING ok_rel_init)
    have stp: "rel_option ok_rel (step False i a) (step True i b)"
      if i: "i \<in> set [0..<cnt]" and ab: "rel_option ok_rel a b" for i a b
    proof (cases a)
      case None
      then show ?thesis using ab by (cases b) (simp_all add: step_def)
    next
      case (Some m)
      then obtain w where b: "b = Some w" and mw: "ok_rel m w"
        using ab by (cases b) simp_all
      have ih: "pass_rel
          (json_serialize_to_buffer_r sprintf parser
             (json_array_get_value (json_value_get_array v) i) False (level + 1) is_pretty)
          (json_serialize_to_buffer_r sprintf parser
             (json_array_get_value (json_value_get_array v) i) True (level + 1) is_pretty)"
        using 1(2)[OF JSONArray refl refl refl refl] i
        by (simp add: cnt_def)
      show ?thesis
        using ih mw
        by (auto simp add: step_def Some b Let_def pass_rel_fst
            intro!: ok_rel_APPEND_STRING ok_rel_advance ok_rel_APPEND_INDENT
            dest: pass_rel_not_negative)
    qed
    have "rel_option ok_rel (fold (step False) [0..<cnt] (Some (st0 False)))
            (fold (step True) [0..<cnt] (Some (st0 True)))"
      by (rule rel_option_fold) (simp_all add: stp init)
    then show ?thesis
      unfolding eq
      by (auto simp add: pass_rel_def Let_def elim!: option.rel_cases
          intro!: ok_rel_APPEND_STRING ok_rel_APPEND_INDENT)
  next
    case JSONObject
    define cnt where "cnt = json_object_get_count (json_value_get_object v)"
    define st0 where "st0 = (\<lambda>buf.
      let st = APPEND_STRING buf ''{'' (0, [])
      in if cnt > 0 \<and> is_pretty then APPEND_STRING buf [CHR 0x0A] st else st)"
    define step where "step = (\<lambda>buf i state.
       case state of
         None \<Rightarrow> None
       | Some st \<Rightarrow>
           (case json_object_get_name (json_value_get_object v) i of
              None \<Rightarrow> None
            | Some key \<Rightarrow>
                (let st = (if is_pretty then APPEND_INDENT buf (level + 1) st else st);
                     k = json_serialize_string parser key (strlen key) buf
                 in if fst k <s 0 then None
                    else
                      (let st = advance buf k st;
                           st = APPEND_STRING buf '':'' st;
                           st = (if is_pretty then APPEND_STRING buf '' '' st else st);
                           r = json_serialize_to_buffer_r sprintf parser
                                 (json_object_get_value_at (json_value_get_object v) i)
                                 buf (level + 1) is_pretty
                       in if fst r <s 0 then None
                          else
                            (let st = advance buf r st;
                                 st = (if i < cnt - 1 then APPEND_STRING buf '','' st
                                       else st);
                                 st = (if is_pretty then APPEND_STRING buf [CHR 0x0A] st
                                       else st)
                             in Some st)))))"
    have eq: "json_serialize_to_buffer_r sprintf parser v buf level is_pretty =
      (case fold (step buf) [0..<cnt] (Some (st0 buf)) of
         None \<Rightarrow> (- 1, [])
       | Some st \<Rightarrow>
           (let st = (if cnt > 0 \<and> is_pretty then APPEND_INDENT buf level st else st)
            in APPEND_STRING buf ''}'' st))" for buf
      apply (subst json_serialize_to_buffer_r.simps)
      unfolding cnt_def st0_def step_def Let_def JSONObject JSON_Value_Type.case
      by (rule refl)
    have init: "ok_rel (st0 False) (st0 True)"
      by (simp add: st0_def Let_def ok_rel_APPEND_STRING ok_rel_init)
    have stp: "rel_option ok_rel (step False i a) (step True i b)"
      if i: "i \<in> set [0..<cnt]" and ab: "rel_option ok_rel a b" for i a b
    proof (cases a)
      case None
      then show ?thesis using ab by (cases b) (simp_all add: step_def)
    next
      case (Some m)
      then obtain w where b: "b = Some w" and mw: "ok_rel m w"
        using ab by (cases b) simp_all
      show ?thesis
      proof (cases "json_object_get_name (json_value_get_object v) i")
        case None
        then show ?thesis by (simp add: step_def Some b)
      next
        case key: (Some key)
        have k: "ok_rel (json_serialize_string parser key (strlen key) False)
                   (json_serialize_string parser key (strlen key) True)"
          by (rule ok_rel_json_serialize_string)
        then have kf: "fst (json_serialize_string parser key (strlen key) False)
            = fst (json_serialize_string parser key (strlen key) True)"
          by (simp add: ok_rel_def)
        show ?thesis
        proof (cases "fst (json_serialize_string parser key (strlen key) True) <s 0")
          case True
          then show ?thesis by (simp add: step_def Some b key Let_def kf)
        next
          case False
          have ih: "pass_rel
              (json_serialize_to_buffer_r sprintf parser
                 (json_object_get_value_at (json_value_get_object v) i) False (level + 1) is_pretty)
              (json_serialize_to_buffer_r sprintf parser
                 (json_object_get_value_at (json_value_get_object v) i) True (level + 1) is_pretty)"
            using 1(1)[OF JSONObject refl refl refl refl _ key refl refl False refl refl refl] i
            by (simp add: cnt_def)
          show ?thesis
            using ih mw False k
            by (auto simp add: step_def Some b key Let_def pass_rel_fst kf
                intro!: ok_rel_APPEND_STRING ok_rel_advance ok_rel_APPEND_INDENT
                dest: pass_rel_not_negative)
        qed
      qed
    qed
    have "rel_option ok_rel (fold (step False) [0..<cnt] (Some (st0 False)))
            (fold (step True) [0..<cnt] (Some (st0 True)))"
      by (rule rel_option_fold) (simp_all add: stp init)
    then show ?thesis
      unfolding eq
      by (auto simp add: pass_rel_def Let_def elim!: option.rel_cases
          intro!: ok_rel_APPEND_STRING ok_rel_APPEND_INDENT)
  qed
qed


lemma sint_count:
  "n < 2 ^ 31 \<Longrightarrow> sint (word_of_nat n :: c_int) = int n"
  by (simp add: signed_of_nat signed_take_bit_int_eq_self)

lemma json_serialize_to_string_size:
  assumes "json_serialize_to_string sprintf parser v = Some s" and "length s < 2 ^ 31"
  shows "json_serialization_size sprintf parser v = length s + 1"
proof -
  let ?m = "json_serialize_to_buffer_r sprintf parser v False 0 False"
  let ?w = "json_serialize_to_buffer_r sprintf parser v True 0 False"
  have rel: "pass_rel ?m ?w" by (rule json_serialize_to_buffer_r_passes)
  from assms(1) have nz: "json_serialization_size sprintf parser v \<noteq> 0"
    by (auto simp add: json_serialize_to_string_def Let_def split: if_splits)
  then have m: "\<not> fst ?m <s 0"
    by (auto simp add: json_serialization_size_def Let_def split: if_splits)
  then have w: "\<not> fst ?w <s 0" using pass_rel_fst[OF rel] by simp
  have ok: "ok_rel ?m ?w" by (rule pass_rel_not_negative[OF rel w])
  from assms(1) nz w have s: "s = snd ?w"
    by (auto simp add: json_serialize_to_string_def json_serialize_to_buffer_def Let_def)
  from ok have "fst ?m = word_of_nat (length s)" by (simp add: ok_rel_def s)
  then have "sint (fst ?m) = int (length s)" using assms(2) by (simp add: sint_count)
  then show ?thesis
    using m by (simp add: json_serialization_size_def Let_def)
qed

lemma json_serialize_to_string_pretty_size:
  assumes "json_serialize_to_string_pretty sprintf parser v = Some s" and "length s < 2 ^ 31"
  shows "json_serialization_size_pretty sprintf parser v = length s + 1"
proof -
  let ?m = "json_serialize_to_buffer_r sprintf parser v False 0 True"
  let ?w = "json_serialize_to_buffer_r sprintf parser v True 0 True"
  have rel: "pass_rel ?m ?w" by (rule json_serialize_to_buffer_r_passes)
  from assms(1) have nz: "json_serialization_size_pretty sprintf parser v \<noteq> 0"
    by (auto simp add: json_serialize_to_string_pretty_def Let_def split: if_splits)
  then have m: "\<not> fst ?m <s 0"
    by (auto simp add: json_serialization_size_pretty_def Let_def split: if_splits)
  then have w: "\<not> fst ?w <s 0" using pass_rel_fst[OF rel] by simp
  have ok: "ok_rel ?m ?w" by (rule pass_rel_not_negative[OF rel w])
  from assms(1) nz w have s: "s = snd ?w"
    by (auto simp add: json_serialize_to_string_pretty_def json_serialize_to_buffer_pretty_def
        Let_def)
  from ok have "fst ?m = word_of_nat (length s)" by (simp add: ok_rel_def s)
  then have "sint (fst ?m) = int (length s)" using assms(2) by (simp add: sint_count)
  then show ?thesis
    using m by (simp add: json_serialization_size_pretty_def Let_def)
qed

lemma json_serialize_to_string_None:
  "json_serialize_to_string sprintf parser v = None
     \<longleftrightarrow> json_serialization_size sprintf parser v = 0"
proof -
  let ?m = "json_serialize_to_buffer_r sprintf parser v False 0 False"
  let ?w = "json_serialize_to_buffer_r sprintf parser v True 0 False"
  have rel: "pass_rel ?m ?w" by (rule json_serialize_to_buffer_r_passes)
  then have "fst ?m = fst ?w" by (rule pass_rel_fst)
  then show ?thesis
    by (auto simp add: json_serialize_to_string_def json_serialize_to_buffer_def
        json_serialization_size_def Let_def split: if_splits)
qed

lemma json_serialize_to_string_pretty_None:
  "json_serialize_to_string_pretty sprintf parser v = None
     \<longleftrightarrow> json_serialization_size_pretty sprintf parser v = 0"
proof -
  let ?m = "json_serialize_to_buffer_r sprintf parser v False 0 True"
  let ?w = "json_serialize_to_buffer_r sprintf parser v True 0 True"
  have rel: "pass_rel ?m ?w" by (rule json_serialize_to_buffer_r_passes)
  then have "fst ?m = fst ?w" by (rule pass_rel_fst)
  then show ?thesis
    by (auto simp add: json_serialize_to_string_pretty_def json_serialize_to_buffer_pretty_def
        json_serialization_size_pretty_def Let_def split: if_splits)
qed

text \<open>
  C3, as stated, fails: the serialized string of \<open>null\<close> has 4 characters, and
  \<open>json_serialization_size\<close> reports 5, the size of the buffer with its terminating NUL.
\<close>

theorem serialization_size_counterexample:
  "json_serialize_to_string sprintf_none json_get_default_parser (Some JNull) = Some ''null''
   \<and> json_serialization_size sprintf_none json_get_default_parser (Some JNull) = 5
   \<and> length ''null'' \<noteq> json_serialization_size sprintf_none json_get_default_parser (Some JNull)"
  by code_simp

text \<open>
  C3, amended. The byte counts are C \<open>int\<close>s. For every value, level and mode the
  measuring pass of \<open>json_serialize_to_buffer_r\<close> (no buffer) returns what the writing
  pass returns and stores nothing; and when the writing pass does not fail and has
  stored fewer than \<open>2^31\<close> bytes, so that no count left the range of \<open>int\<close>, it returns
  the count of the bytes it stored. So, compact or pretty, whenever the serialized
  string is shorter than \<open>2^31\<close> bytes, \<open>json_serialization_size\<close> is the length of the
  serialized string plus 1 (the terminating NUL); and it is 0 exactly when there is no
  serialized string.
\<close>

theorem serialization_size_exact:
  "fst (json_serialize_to_buffer_r sprintf parser v False level is_pretty)
     = fst (json_serialize_to_buffer_r sprintf parser v True level is_pretty)
   \<and> snd (json_serialize_to_buffer_r sprintf parser v False level is_pretty) = []
   \<and> (\<not> fst (json_serialize_to_buffer_r sprintf parser v True level is_pretty) <s 0 \<longrightarrow>
        length (snd (json_serialize_to_buffer_r sprintf parser v True level is_pretty)) < 2 ^ 31 \<longrightarrow>
        sint (fst (json_serialize_to_buffer_r sprintf parser v True level is_pretty))
          = int (length (snd (json_serialize_to_buffer_r sprintf parser v True level is_pretty))))
   \<and> (json_serialize_to_string sprintf parser v = Some s \<longrightarrow> length s < 2 ^ 31 \<longrightarrow>
        json_serialization_size sprintf parser v = length s + 1)
   \<and> (json_serialize_to_string_pretty sprintf parser v = Some s' \<longrightarrow> length s' < 2 ^ 31 \<longrightarrow>
        json_serialization_size_pretty sprintf parser v = length s' + 1)
   \<and> (json_serialize_to_string sprintf parser v = None
        \<longleftrightarrow> json_serialization_size sprintf parser v = 0)
   \<and> (json_serialize_to_string_pretty sprintf parser v = None
        \<longleftrightarrow> json_serialization_size_pretty sprintf parser v = 0)"
proof -
  let ?m = "json_serialize_to_buffer_r sprintf parser v False level is_pretty"
  let ?w = "json_serialize_to_buffer_r sprintf parser v True level is_pretty"
  have rel: "pass_rel ?m ?w"
    by (rule json_serialize_to_buffer_r_passes)
  then have 1: "fst ?m = fst ?w" "snd ?m = []"
    by (auto simp add: pass_rel_def ok_rel_def)
  have 2: "sint (fst ?w) = int (length (snd ?w))"
    if "\<not> fst ?w <s 0" "length (snd ?w) < 2 ^ 31"
  proof -
    from pass_rel_not_negative[OF rel that(1)]
    have "fst ?w = word_of_nat (length (snd ?w))" by (simp add: ok_rel_def)
    then show ?thesis using that(2) by (simp add: sint_count)
  qed
  show ?thesis
    using 1 2 json_serialize_to_string_size[of sprintf parser v s]
      json_serialize_to_string_pretty_size[of sprintf parser v s']
      json_serialize_to_string_None[of sprintf parser v]
      json_serialize_to_string_pretty_None[of sprintf parser v]
    by blast
qed

theorem serialization_size_exact_witness:
  "json_serialize_to_string sprintf_none json_get_default_parser (Some serialization_example)
     = Some (''[null,'' @ [CHR 0x22] @ ''a'' @ [CHR 0x5C] @ ''/b'' @ [CHR 0x22] @ '',[false]]'')
   \<and> json_serialization_size sprintf_none json_get_default_parser (Some serialization_example)
       = 22
   \<and> json_serialize_to_string_pretty sprintf_none json_get_default_parser (Some (JArray [JNull]))
       = Some (''['' @ [CHR 0x0A] @ ''    null'' @ [CHR 0x0A] @ '']'')
   \<and> json_serialization_size_pretty sprintf_none json_get_default_parser (Some (JArray [JNull]))
       = 13
   \<and> \<not> fst (json_serialize_to_buffer_r sprintf_none json_get_default_parser
               (Some serialization_example) True 0 False) <s 0
   \<and> sint (fst (json_serialize_to_buffer_r sprintf_none json_get_default_parser
               (Some serialization_example) True 0 False)) = 21"
proof -
  let ?s = "''[null,'' @ [CHR 0x22] @ ''a'' @ [CHR 0x5C] @ ''/b'' @ [CHR 0x22] @ '',[false]]''"
  let ?p = "''['' @ [CHR 0x0A] @ ''    null'' @ [CHR 0x0A] @ '']''"
  let ?w = "json_serialize_to_buffer_r sprintf_none json_get_default_parser
               (Some serialization_example) True 0 False"
  have a: "json_serialize_to_string sprintf_none json_get_default_parser
      (Some serialization_example) = Some ?s"
    by code_simp
  have b: "json_serialize_to_string_pretty sprintf_none json_get_default_parser
      (Some (JArray [JNull])) = Some ?p"
    by code_simp
  have c: "\<not> fst ?w <s 0"
    by code_simp
  have w: "snd ?w = ?s"
    by code_simp
  have ls: "length ?s < 2 ^ 31" "length ?p < 2 ^ 31" by simp_all
  have lw: "length (snd ?w) < 2 ^ 31" unfolding w by simp
  note inst = serialization_size_exact [of sprintf_none json_get_default_parser
      "Some serialization_example" 0 False ?s "[]"]
  from inst a ls(1)
  have d: "json_serialization_size sprintf_none json_get_default_parser
      (Some serialization_example) = length ?s + 1"
    by blast
  from inst c lw have "sint (fst ?w) = int (length (snd ?w))"
    by blast
  then have f: "sint (fst ?w) = 21" unfolding w by simp
  from serialization_size_exact [of sprintf_none json_get_default_parser
      "Some (JArray [JNull])" 0 False "[]" ?p] b ls(2)
  have e: "json_serialization_size_pretty sprintf_none json_get_default_parser
      (Some (JArray [JNull])) = length ?p + 1"
    by blast
  show ?thesis using a b c d e f by simp
qed

section \<open>The hash table of an object\<close>



lemma c_str_idem [simp]: "c_str (c_str s) = c_str s"
  by (simp add: c_str_def)

lemma strlen_c_str [simp]: "strlen (c_str s) = strlen s"
  by (simp add: strlen_def c_str_def)

lemma length_c_str: "length (c_str s) = strlen s"
  by (simp add: strlen_def c_str_def)

lemma c_str_no_nul: "CHR 0x00 \<notin> set (c_str s)"
  by (auto simp add: c_str_def dest: set_takeWhileD)

lemma c_str_id: "CHR 0x00 \<notin> set s \<Longrightarrow> c_str s = s"
  by (auto simp add: c_str_def)

lemma strlen_no_nul: "CHR 0x00 \<notin> set s \<Longrightarrow> strlen s = length s"
  using c_str_id[of s] length_c_str[of s] by simp

lemma parson_strdup_c_str: "parson_strdup s = c_str s"
  unfolding parson_strdup_def parson_strndup_def strlen_def c_str_def
  by (rule takeWhile_eq_take[symmetric])



lemma peek_c_str: "peek (c_str s) = peek s"
  by (cases s) (simp_all add: peek_def c_str_def)























lemma map_fst_table_pairs:
  "map fst (table_pairs object) = map (\<lambda>e. c_str (entry_name e)) (entries object)"
  by (simp add: table_pairs_def comp_def)


lemma table_map_None:
  "table_map object key = None
     \<longleftrightarrow> key \<notin> set (map (\<lambda>e. c_str (entry_name e)) (entries object))"
  by (metis map_fst_table_pairs map_of_eq_None_iff set_map table_map_def)





lemma table_pairs_store:
  "table_pairs (json_object_store object nm v c h) = table_pairs object @ [(c_str nm, v)]"
  by (simp add: table_pairs_def json_object_store_def)

lemma table_map_store:
  "c_str nm \<notin> set (map (\<lambda>e. c_str (entry_name e)) (entries object)) \<Longrightarrow>
   table_map (json_object_store object nm v c h) = (table_map object)(c_str nm \<mapsto> v)"
proof
  fix x
  assume new: "c_str nm \<notin> set (map (\<lambda>e. c_str (entry_name e)) (entries object))"
  then have n: "map_of (table_pairs object) (c_str nm) = None"
    using table_map_None[of object "c_str nm"] by (simp add: table_map_def)
  show "table_map (json_object_store object nm v c h) x
      = ((table_map object)(c_str nm \<mapsto> v)) x"
    unfolding table_map_def table_pairs_store
    using n by (cases "x = c_str nm") (simp_all add: map_add_def split: option.splits)
qed




lemma table_pairs_init [simp]: "table_pairs (json_object_init n) = []"
  by (simp add: table_pairs_def json_object_init_def)

lemma cell_capacity_init [simp]: "cell_capacity (json_object_init n) = n"
  by (simp add: json_object_init_def cell_capacity_def)

lemma cell_capacity_store [simp]:
  "cell_capacity (json_object_store object nm v c h) = cell_capacity object"
  by (simp add: json_object_store_def cell_capacity_def)

lemma item_capacity_store [simp]:
  "item_capacity (json_object_store object nm v c h) = item_capacity object"
  by (simp add: json_object_store_def)


















lemma close_hole_simps [simp]:
  "cell_capacity (close_hole object i) = cell_capacity object"
  "entries (close_hole object i) = entries object"
  "item_capacity (close_hole object i) = item_capacity object"
  "count (close_hole object i) = count object"
  "entry_home (close_hole object i) e = entry_home object e"
  "entry_cell (close_hole object i) e = entry_cell object e"
  "table_pairs (close_hole object i) = table_pairs object"
  by (simp_all add: close_hole_def cell_capacity_def count_def entry_home_def entry_cell_def
      table_pairs_def)































section \<open>The table after insertions and removals\<close>



section \<open>The order of the entries\<close>



end
